theory Spec2Isabelle
  imports Complex_Main
begin

section \<open>Data model\<close>

text \<open>
  A raw provider record is the JSON object the stat provider returns for one player and
  one week. The code reads it with \<^verbatim>\<open>stat.get(key, default)\<close> only. Its text
  fields (Name, Team, Position) and its integer-valued fields (the nine statistics, Week)
  are kept as two maps; a key that is absent maps to \<open>None\<close>. A text field that is
  present holds a JSON string, \<open>Some s\<close>, or JSON \<^verbatim>\<open>null\<close>, which Python reads as
  \<^verbatim>\<open>None\<close> and which is \<open>None\<close> here too.

  Statistics are Python integers. The score is a Python float; here it is the exact
  rational number that the float operations of the code approximate, so the rounding
  error of a float operation is not represented. The two agree wherever every
  intermediate value of the computation is a float that is computed exactly.
\<close>

record raw_stat =
  text_fields :: "string \<rightharpoonup> string option"
  num_fields :: "string \<rightharpoonup> int"

text \<open>
  \<^verbatim>\<open>stat.get(k, d)\<close> on a numeric and on a text field. The default is returned for
  an absent key only: a key that is present with \<^verbatim>\<open>null\<close> gives \<^verbatim>\<open>None\<close>.
\<close>

definition get_num :: "raw_stat \<Rightarrow> string \<Rightarrow> int \<Rightarrow> int" where
  "get_num stat k d = (case num_fields stat k of None \<Rightarrow> d | Some v \<Rightarrow> v)"

definition get_text :: "raw_stat \<Rightarrow> string \<Rightarrow> string option \<Rightarrow> string option" where
  "get_text stat k d = (case text_fields stat k of None \<Rightarrow> d | Some v \<Rightarrow> v)"

text \<open>
  The canonical player record built by the handler: \<^verbatim>\<open>{'name', 'team', 'position',
  'stats'}\<close>, where \<^verbatim>\<open>stats\<close> is a dictionary from stat names to numbers. Each of
  the three text values is a string or \<^verbatim>\<open>None\<close>.
\<close>

record player =
  name :: "string option"
  team :: "string option"
  position :: "string option"
  stats :: "string \<rightharpoonup> rat"

text \<open>The scraper class adds the week, the year and the source label.\<close>

record scraper_player = player +
  week :: int
  year :: int
  source_url :: string

section \<open>Scoring engine\<close>

text \<open>
  \<^verbatim>\<open>round(points, 1)\<close>: the nearest multiple of one tenth, a tie going to the even
  multiple.
\<close>

definition py_round1 :: "rat \<Rightarrow> rat" where
  "py_round1 x =
     (let y = x * 10; f = \<lfloor>y\<rfloor>; d = y - of_int f
      in (if d < 1 / 2 then of_int f
          else if 1 / 2 < d then of_int (f + 1)
          else if even f then of_int f else of_int (f + 1)) / 10)"

text \<open>\<^verbatim>\<open>calculate_fantasy_points\<close> of api_lambda.py (lines 164-185).\<close>

definition calculate_fantasy_points :: "raw_stat \<Rightarrow> rat" where
  "calculate_fantasy_points stat =
     (let points = 0;
          points = points + (of_int (get_num stat ''PassingYards'' 0) / 25) * 1;
          points = points + of_int (get_num stat ''PassingTouchdowns'' 0 * 4);
          points = points - of_int (get_num stat ''Interceptions'' 0 * 2);
          points = points + (of_int (get_num stat ''RushingYards'' 0) / 10) * 1;
          points = points + of_int (get_num stat ''RushingTouchdowns'' 0 * 6);
          points = points + (of_int (get_num stat ''ReceivingYards'' 0) / 10) * 1;
          points = points + of_int (get_num stat ''ReceivingTouchdowns'' 0 * 6);
          points = points + of_int (get_num stat ''Receptions'' 0 * 1);
          points = points - of_int (get_num stat ''Fumbles'' 0 * 2)
      in py_round1 points)"

text \<open>
  \<^verbatim>\<open>SportsDataScraper.calculate_fantasy_points\<close> of sportsdata_scraper.py
  (lines 80-101), translated from that file on its own.
\<close>

definition scraper_calculate_fantasy_points :: "raw_stat \<Rightarrow> rat" where
  "scraper_calculate_fantasy_points stat =
     (let points = 0;
          points = points + (of_int (get_num stat ''PassingYards'' 0) / 25) * 1;
          points = points + of_int (get_num stat ''PassingTouchdowns'' 0 * 4);
          points = points - of_int (get_num stat ''Interceptions'' 0 * 2);
          points = points + (of_int (get_num stat ''RushingYards'' 0) / 10) * 1;
          points = points + of_int (get_num stat ''RushingTouchdowns'' 0 * 6);
          points = points + (of_int (get_num stat ''ReceivingYards'' 0) / 10) * 1;
          points = points + of_int (get_num stat ''ReceivingTouchdowns'' 0 * 6);
          points = points + of_int (get_num stat ''Receptions'' 0 * 1);
          points = points - of_int (get_num stat ''Fumbles'' 0 * 2)
      in py_round1 points)"

section \<open>Record normalizer\<close>

text \<open>
  The loop of \<^verbatim>\<open>lambda_handler\<close> (api_lambda.py, lines 42-53) that builds
  \<^verbatim>\<open>all_players\<close>.
\<close>

definition format_player :: "raw_stat \<Rightarrow> player" where
  "format_player stat =
     (let fantasy_points = calculate_fantasy_points stat
      in \<lparr>name = get_text stat ''Name'' (Some ''''),
          team = get_text stat ''Team'' (Some ''''),
          position = get_text stat ''Position'' (Some ''''),
          stats = [''fantasy_points'' \<mapsto> fantasy_points]\<rparr>)"

definition all_players_of :: "raw_stat list \<Rightarrow> player list" where
  "all_players_of stats_data = map format_player stats_data"

text \<open>
  \<^verbatim>\<open>SportsDataScraper.format_player_data(stats_data, week=None, year=2024)\<close>
  (sportsdata_scraper.py, lines 48-78). \<^verbatim>\<open>week or stat.get('Week', 1)\<close> takes the
  record's week when the argument is \<open>None\<close> or zero.
\<close>

definition format_scraper_player :: "int option \<Rightarrow> int \<Rightarrow> raw_stat \<Rightarrow> scraper_player" where
  "format_scraper_player wk yr stat =
     (let fantasy_points = scraper_calculate_fantasy_points stat
      in \<lparr>name = get_text stat ''Name'' (Some ''''),
          team = get_text stat ''Team'' (Some ''''),
          position = get_text stat ''Position'' (Some ''''),
          stats =
            [''passing_yards'' \<mapsto> of_int (get_num stat ''PassingYards'' 0),
             ''passing_tds'' \<mapsto> of_int (get_num stat ''PassingTouchdowns'' 0),
             ''interceptions'' \<mapsto> of_int (get_num stat ''Interceptions'' 0),
             ''rushing_yards'' \<mapsto> of_int (get_num stat ''RushingYards'' 0),
             ''rushing_tds'' \<mapsto> of_int (get_num stat ''RushingTouchdowns'' 0),
             ''receiving_yards'' \<mapsto> of_int (get_num stat ''ReceivingYards'' 0),
             ''receiving_tds'' \<mapsto> of_int (get_num stat ''ReceivingTouchdowns'' 0),
             ''receptions'' \<mapsto> of_int (get_num stat ''Receptions'' 0),
             ''fumbles'' \<mapsto> of_int (get_num stat ''Fumbles'' 0),
             ''fantasy_points'' \<mapsto> fantasy_points],
          week = (if wk = None \<or> wk = Some 0 then get_num stat ''Week'' 1 else the wk),
          year = yr,
          source_url = ''sportsdata.io''\<rparr>)"

definition format_player_data :: "raw_stat list \<Rightarrow> int option \<Rightarrow> int \<Rightarrow> scraper_player list" where
  "format_player_data stats_data wk yr = map (format_scraper_player wk yr) stats_data"

section \<open>Persistence layer\<close>

text \<open>
  Everything the code can raise is a value of \<open>error\<close>. The database errors are
  the ones the schema of api_lambda.py (lines 76-101) can produce for the statements
  the handler runs.
\<close>

datatype error =
    KeyError string
  | RequestException
  | ClientError
  | OperationalError
  | StringDataRightTruncation
  | NumericValueOutOfRange
  | NotNullViolation
  | InFailedSqlTransaction

text \<open>
  A table with a \<^verbatim>\<open>SERIAL PRIMARY KEY\<close> and one \<^verbatim>\<open>UNIQUE\<close> constraint is a
  list of rows \<open>(id, key, other columns)\<close>, in insertion order, together with the next
  value of its sequence.
  \<^item> players: key \<open>(name, team)\<close>, other columns \<open>(position, created_at)\<close>; the
    columns \<^verbatim>\<open>team\<close> and \<^verbatim>\<open>position\<close> are nullable, \<open>None\<close> is \<^verbatim>\<open>NULL\<close>;
  \<^item> games: key \<open>(week, year)\<close>, other columns \<open>(game_date, created_at)\<close>;
  \<^item> player_stats: key \<open>(player_id, game_id)\<close>, other columns
    \<open>(fantasy_points, updated_at)\<close>.
  Dates and timestamps are readings of one clock, a natural number.
\<close>

type_synonym ('k, 'v) table = "(nat \<times> 'k \<times> 'v) list"

record database =
  players :: "(string \<times> string option, string option \<times> nat) table"
  games :: "(int \<times> int, nat \<times> nat) table"
  player_stats :: "(nat \<times> nat, rat \<times> nat) table"
  players_id_seq :: nat
  games_id_seq :: nat
  player_stats_id_seq :: nat

definition row_id :: "nat \<times> 'k \<times> 'v \<Rightarrow> nat" where
  "row_id r = fst r"

definition row_key :: "nat \<times> 'k \<times> 'v \<Rightarrow> 'k" where
  "row_key r = fst (snd r)"

definition row_val :: "nat \<times> 'k \<times> 'v \<Rightarrow> 'v" where
  "row_val r = snd (snd r)"

definition find_row :: "'k \<Rightarrow> ('k, 'v) table \<Rightarrow> (nat \<times> 'k \<times> 'v) option" where
  "find_row k rows = find (\<lambda>r. row_key r = k) rows"

text \<open>
  \<^verbatim>\<open>INSERT ... ON CONFLICT (key) DO UPDATE SET ... RETURNING id\<close>: when no row
  conflicts with the key, a row with the next sequence value is appended; otherwise the
  row with the key is updated in place and keeps its id. The sequence advances in both
  cases, and the id of the affected row is returned. A key with a \<^verbatim>\<open>NULL\<close> in it
  conflicts with no row, not even with a row that holds the same key, because a
  \<^verbatim>\<open>UNIQUE\<close> constraint compares \<^verbatim>\<open>NULL\<close>s as distinct: \<open>comparable k\<close> says that
  the key \<open>k\<close> has no \<^verbatim>\<open>NULL\<close>.
\<close>

definition upsert ::
  "('k \<Rightarrow> bool) \<Rightarrow> 'k \<Rightarrow> 'v \<Rightarrow> ('v \<Rightarrow> 'v) \<Rightarrow> ('k, 'v) table \<times> nat
     \<Rightarrow> nat \<times> ('k, 'v) table \<times> nat" where
  "upsert comparable k ins upd t =
     (case (if comparable k then find_row k (fst t) else None) of
        None \<Rightarrow> (snd t, fst t @ [(snd t, k, ins)], Suc (snd t))
      | Some r \<Rightarrow>
          (row_id r,
           map (\<lambda>r'. if row_key r' = k then (row_id r', k, upd (row_val r')) else r') (fst t),
           Suc (snd t)))"

text \<open>
  Which keys of the three tables are comparable. In a player key the name is never
  \<^verbatim>\<open>NULL\<close> (the column is \<^verbatim>\<open>NOT NULL\<close>), the team may be. The week and year of
  a game are integers, and the two ids of a statistics row come from
  \<^verbatim>\<open>RETURNING id\<close>.
\<close>

definition player_cmp :: "string \<times> string option \<Rightarrow> bool" where
  "player_cmp k = (snd k \<noteq> None)"

definition game_cmp :: "int \<times> int \<Rightarrow> bool" where
  "game_cmp k = True"

definition stat_cmp :: "nat \<times> nat \<Rightarrow> bool" where
  "stat_cmp k = True"

text \<open>
  Storing a string into a \<^verbatim>\<open>VARCHAR(n)\<close> column: a longer string is an error unless
  the excess characters are all spaces, in which case it is truncated.
\<close>

definition varchar :: "nat \<Rightarrow> string \<Rightarrow> error + string" where
  "varchar n s =
     (if list_all (\<lambda>c. c = CHR '' '') (drop n s) then Inr (take n s)
      else Inl StringDataRightTruncation)"

text \<open>\<^verbatim>\<open>NULL\<close> has every type; it is stored as it is.\<close>

definition varchar_null :: "nat \<Rightarrow> string option \<Rightarrow> error + string option" where
  "varchar_null n v =
     (case v of
        None \<Rightarrow> Inr None
      | Some s \<Rightarrow> (case varchar n s of Inl e \<Rightarrow> Inl e | Inr s' \<Rightarrow> Inr (Some s')))"

text \<open>An \<^verbatim>\<open>INTEGER\<close> column holds a 32-bit signed value.\<close>

definition int4 :: "int \<Rightarrow> bool" where
  "int4 i = (- 2147483648 \<le> i \<and> i \<le> 2147483647)"

text \<open>
  Storing a number into a \<^verbatim>\<open>DECIMAL(5,2)\<close> column: it is rounded to two decimal
  places (a tie away from zero) and must then be below 1000 in absolute value.
\<close>

definition round_2 :: "rat \<Rightarrow> rat" where
  "round_2 x =
     (if x < 0 then - of_int \<lfloor>- x * 100 + 1 / 2\<rfloor>
      else of_int \<lfloor>x * 100 + 1 / 2\<rfloor>) / 100"

definition decimal_5_2 :: "rat \<Rightarrow> error + rat" where
  "decimal_5_2 x =
     (let r = round_2 x
      in if \<bar>r\<bar> < 1000 then Inr r else Inl NumericValueOutOfRange)"

text \<open>The game statement (api_lambda.py, lines 105-112).\<close>

definition insert_game :: "database \<Rightarrow> nat \<Rightarrow> int \<Rightarrow> int \<Rightarrow> error + nat \<times> database" where
  "insert_game db now wk yr =
     (if int4 wk \<and> int4 yr then
        (case upsert game_cmp (wk, yr) (now, now) (\<lambda>v. (now, snd v))
                (games db, games_id_seq db) of
           (game_id, rows, seq) \<Rightarrow> Inr (game_id, db\<lparr>games := rows, games_id_seq := seq\<rparr>))
      else Inl NumericValueOutOfRange)"

text \<open>
  The player statement (lines 118-124). The column \<^verbatim>\<open>name\<close> is \<^verbatim>\<open>NOT NULL\<close>;
  \<^verbatim>\<open>team\<close> is nullable (line 80), and a row whose team is \<^verbatim>\<open>NULL\<close> conflicts with
  no row, so it is always inserted.
\<close>

definition insert_player ::
  "database \<Rightarrow> nat \<Rightarrow> string option \<Rightarrow> string option \<Rightarrow> string option
     \<Rightarrow> error + nat \<times> database" where
  "insert_player db now nm tm pos =
     (case varchar_null 100 nm of Inl e \<Rightarrow> Inl e | Inr nm' \<Rightarrow>
      case varchar_null 3 tm of Inl e \<Rightarrow> Inl e | Inr tm' \<Rightarrow>
      case varchar_null 5 pos of Inl e \<Rightarrow> Inl e | Inr pos' \<Rightarrow>
      case nm' of None \<Rightarrow> Inl NotNullViolation | Some nm'' \<Rightarrow>
        (case upsert player_cmp (nm'', tm') (pos', now) (\<lambda>v. (pos', snd v))
                (players db, players_id_seq db) of
           (player_id, rows, seq) \<Rightarrow>
             Inr (player_id, db\<lparr>players := rows, players_id_seq := seq\<rparr>)))"

text \<open>The statistics statement (lines 129-134).\<close>

definition insert_player_stats ::
  "database \<Rightarrow> nat \<Rightarrow> nat \<Rightarrow> nat \<Rightarrow> rat \<Rightarrow> error + database" where
  "insert_player_stats db now player_id game_id fantasy_points =
     (case decimal_5_2 fantasy_points of Inl e \<Rightarrow> Inl e | Inr pts \<Rightarrow>
        (case upsert stat_cmp (player_id, game_id) (pts, now) (\<lambda>v. (pts, now))
                (player_stats db, player_stats_id_seq db) of
           (stat_id, rows, seq) \<Rightarrow>
             Inr (db\<lparr>player_stats := rows, player_stats_id_seq := seq\<rparr>)))"

text \<open>
  The state of the open transaction while the players are processed: the tables as the
  transaction sees them, whether a statement has failed in it, and \<^verbatim>\<open>success_count\<close>.
  Once a statement has failed, the transaction is aborted and every later statement in
  it raises \<open>InFailedSqlTransaction\<close>.
\<close>

record txn =
  cur :: database
  aborted :: bool
  success_count :: nat

text \<open>\<^verbatim>\<open>player.get('stats', {}).get('fantasy_points', 0)\<close> (lines 126-127).\<close>

definition points_of :: "player \<Rightarrow> rat" where
  "points_of p = (case stats p ''fantasy_points'' of None \<Rightarrow> 0 | Some v \<Rightarrow> v)"

text \<open>
  One iteration of the loop over \<^verbatim>\<open>all_players\<close> (lines 116-140): the \<^verbatim>\<open>try\<close> body
  and its \<^verbatim>\<open>except Exception: continue\<close>.
\<close>

definition save_player_try :: "nat \<Rightarrow> nat \<Rightarrow> txn \<Rightarrow> player \<Rightarrow> error + txn" where
  "save_player_try now game_id t p =
     (if aborted t then Inl InFailedSqlTransaction
      else case insert_player (cur t) now (name p) (team p) (position p) of
             Inl e \<Rightarrow> Inl e
           | Inr (player_id, db1) \<Rightarrow>
               (let fantasy_points = points_of p
                in case insert_player_stats db1 now player_id game_id fantasy_points of
                     Inl e \<Rightarrow> Inl e
                   | Inr db2 \<Rightarrow> Inr (t\<lparr>cur := db2, success_count := success_count t + 1\<rparr>)))"

definition save_player :: "nat \<Rightarrow> nat \<Rightarrow> txn \<Rightarrow> player \<Rightarrow> txn" where
  "save_player now game_id t p =
     (case save_player_try now game_id t p of
        Inl e \<Rightarrow> t\<lparr>aborted := True\<rparr>
      | Inr t' \<Rightarrow> t')"

definition process_players :: "nat \<Rightarrow> nat \<Rightarrow> player list \<Rightarrow> txn \<Rightarrow> txn" where
  "process_players now game_id all_players t = foldl (save_player now game_id) t all_players"

text \<open>
  \<^verbatim>\<open>conn.commit()\<close> (line 142): an aborted transaction is rolled back, and the
  tables are as they were when it began; sequences are not transactional.
\<close>

definition commit :: "database \<Rightarrow> txn \<Rightarrow> database" where
  "commit before t =
     (if aborted t
      then before\<lparr>players_id_seq := players_id_seq (cur t),
                  games_id_seq := games_id_seq (cur t),
                  player_stats_id_seq := player_stats_id_seq (cur t)\<rparr>
      else cur t)"

text \<open>
  The persistence step of the handler (lines 102-144), on an open connection: the
  tables exist after \<^verbatim>\<open>CREATE TABLE IF NOT EXISTS\<close>, which changes no row; then the
  game statement, the loop and the commit. An error of the game statement is not caught
  here, and its transaction is never committed.
\<close>

definition persist_week ::
  "database \<Rightarrow> nat \<Rightarrow> int \<Rightarrow> int \<Rightarrow> player list \<Rightarrow> error + nat \<times> database" where
  "persist_week db now wk yr all_players =
     (case insert_game db now wk yr of
        Inl e \<Rightarrow> Inl e
      | Inr (game_id, db1) \<Rightarrow>
          (let t = process_players now game_id all_players
                     \<lparr>cur = db1, aborted = False, success_count = 0\<rparr>
           in Inr (success_count t, commit db t)))"

text \<open>The database a run leaves behind, whether or not the run raised.\<close>

definition db_after :: "database \<Rightarrow> nat \<Rightarrow> int \<Rightarrow> int \<Rightarrow> player list \<Rightarrow> database" where
  "db_after db now wk yr all_players =
     (case persist_week db now wk yr all_players of Inl e \<Rightarrow> db | Inr r \<Rightarrow> snd r)"

section \<open>Entry point\<close>

record event =
  event_week :: "int option"
  event_year :: "int option"

datatype endpoint = CurrentWeek | PlayerGameStatsByWeek int int

datatype call = Http_get endpoint | Get_secret_value string | Db_connect

text \<open>
  What the handler reads from outside: the process environment, the provider's answers,
  the secret store, whether the database accepts the connection, the database and the
  clock.
\<close>

record world =
  environ :: "string \<rightharpoonup> string"
  current_week_json :: "error + (string \<rightharpoonup> int)"
  stats_json :: "int \<Rightarrow> int \<Rightarrow> error + raw_stat list"
  secret_string :: "string \<Rightarrow> error + string"
  connect :: "string \<Rightarrow> error + unit"
  stored :: database
  clock :: nat

text \<open>
  The body of a response: a message, the text of an exception, or the summary
  \<^verbatim>\<open>{message, week, year, total_players_found, data_source}\<close>, whose message
  carries \<^verbatim>\<open>success_count\<close>.
\<close>

datatype body =
    Message string
  | Error_message error
  | Summary nat int int nat string

record response =
  statusCode :: nat
  body :: body

text \<open>
  What an invocation leaves: the response, the database, and the calls made to the
  provider, the secret store and the database server, in order.
\<close>

record outcome =
  returned :: response
  final_db :: database
  calls :: "call list"

text \<open>
  The week the handler queries (lines 13 and 27-31): \<^verbatim>\<open>not event.get('week')\<close>
  holds for a missing week and for week 0.
\<close>

definition resolve_week :: "world \<Rightarrow> event \<Rightarrow> call list \<times> (error + int)" where
  "resolve_week w ev =
     (let current_week = (case event_week ev of None \<Rightarrow> 1 | Some v \<Rightarrow> v)
      in if event_week ev = None \<or> event_week ev = Some 0 then
           ([Http_get CurrentWeek],
            case current_week_json w of
              Inl e \<Rightarrow> Inl e
            | Inr js \<Rightarrow> Inr (case js ''Week'' of None \<Rightarrow> 1 | Some v \<Rightarrow> v))
         else ([], Inr current_week))"

definition resolve_year :: "event \<Rightarrow> int" where
  "resolve_year ev = (case event_year ev of None \<Rightarrow> 2024 | Some v \<Rightarrow> v)"

text \<open>Lines 61-155: secret, connection, persistence and the summary.\<close>

definition save_to_database ::
  "world \<Rightarrow> string \<Rightarrow> int \<Rightarrow> int \<Rightarrow> player list \<Rightarrow> call list \<times> database \<times> (error + response)" where
  "save_to_database w secret_arn current_week current_year all_players =
     (case secret_string w secret_arn of
        Inl e \<Rightarrow> ([Get_secret_value secret_arn], stored w, Inl e)
      | Inr db_creds \<Rightarrow>
          (case connect w db_creds of
             Inl e \<Rightarrow> ([Get_secret_value secret_arn, Db_connect], stored w, Inl e)
           | Inr conn \<Rightarrow>
               (case persist_week (stored w) (clock w) current_week current_year all_players of
                  Inl e \<Rightarrow> ([Get_secret_value secret_arn, Db_connect], stored w, Inl e)
                | Inr (n, db') \<Rightarrow>
                    ([Get_secret_value secret_arn, Db_connect], db',
                     Inr \<lparr>statusCode = 200,
                          body = Summary n current_week current_year (length all_players)
                                   ''sportsdata.io''\<rparr>))))"

text \<open>The \<^verbatim>\<open>try\<close> block of the handler (lines 22-155).\<close>

definition handler_try ::
  "world \<Rightarrow> event \<Rightarrow> string \<Rightarrow> call list \<times> database \<times> (error + response)" where
  "handler_try w ev secret_arn =
     (let current_year = resolve_year ev
      in case resolve_week w ev of
           (c1, Inl e) \<Rightarrow> (c1, stored w, Inl e)
         | (c1, Inr current_week) \<Rightarrow>
             (let c2 = c1 @ [Http_get (PlayerGameStatsByWeek current_year current_week)]
              in case stats_json w current_year current_week of
                   Inl e \<Rightarrow> (c2, stored w, Inl e)
                 | Inr stats_data \<Rightarrow>
                     (let all_players = all_players_of stats_data
                      in if all_players = [] then
                           (c2, stored w,
                            Inr \<lparr>statusCode = 200, body = Message ''No players found from API''\<rparr>)
                         else
                           (case save_to_database w secret_arn current_week current_year
                                   all_players of
                              (c3, db', r) \<Rightarrow> (c2 @ c3, db', r)))))"

text \<open>
  \<^verbatim>\<open>lambda_handler(event, context)\<close>. \<open>Inl\<close> is an exception that leaves the handler;
  \<^verbatim>\<open>os.environ['DB_SECRET_ARN']\<close> (line 11) stands before the \<^verbatim>\<open>try\<close>.
  \<^verbatim>\<open>not api_key\<close> holds for a missing key and for the empty string.
\<close>

definition lambda_handler :: "world \<Rightarrow> event \<Rightarrow> error + outcome" where
  "lambda_handler w ev =
     (case environ w ''DB_SECRET_ARN'' of
        None \<Rightarrow> Inl (KeyError ''DB_SECRET_ARN'')
      | Some secret_arn \<Rightarrow>
          (let api_key = environ w ''SPORTSDATA_API_KEY''
           in if api_key = None \<or> api_key = Some '''' then
                Inr \<lparr>returned =
                       \<lparr>statusCode = 400,
                        body = Message ''SPORTSDATA_API_KEY environment variable required''\<rparr>,
                     final_db = stored w, calls = []\<rparr>
              else
                (case handler_try w ev secret_arn of
                   (cs, db', Inr resp) \<Rightarrow> Inr \<lparr>returned = resp, final_db = db', calls = cs\<rparr>
                 | (cs, db', Inl e) \<Rightarrow>
                     Inr \<lparr>returned = \<lparr>statusCode = 500, body = Error_message e\<rparr>,
                          final_db = db', calls = cs\<rparr>)))"

section \<open>Notions used in the statements\<close>

text \<open>The database right after the tables have been created for the first time.\<close>

definition empty_database :: database where
  "empty_database =
     \<lparr>players = [], games = [], player_stats = [],
      players_id_seq = 1, games_id_seq = 1, player_stats_id_seq = 1\<rparr>"

subsection \<open>Tables\<close>

text \<open>The id of the row with a given key, if there is one.\<close>

definition id_of :: "'k \<Rightarrow> ('k, 'v) table \<Rightarrow> nat option" where
  "id_of k rows = map_option row_id (find_row k rows)"

text \<open>
  A run of upserts on one table: \<open>c\<close> says which keys are comparable, \<open>kf\<close> gives
  the key of an item, \<open>ins\<close> the columns of a new row and \<open>upd\<close> the change to an
  existing one.
\<close>

fun upsert_all ::
  "('k \<Rightarrow> bool) \<Rightarrow> ('a \<Rightarrow> 'k) \<Rightarrow> ('a \<Rightarrow> 'v) \<Rightarrow> ('a \<Rightarrow> 'v \<Rightarrow> 'v) \<Rightarrow> 'a list
     \<Rightarrow> ('k, 'v) table \<times> nat \<Rightarrow> ('k, 'v) table \<times> nat" where
  "upsert_all c kf ins upd [] t = t"
| "upsert_all c kf ins upd (a # as) t =
     upsert_all c kf ins upd as (snd (upsert c (kf a) (ins a) (upd a) t))"

text \<open>The update of one row by an upsert on key \<open>k\<close>.\<close>

definition touch :: "'k \<Rightarrow> ('v \<Rightarrow> 'v) \<Rightarrow> nat \<times> 'k \<times> 'v \<Rightarrow> nat \<times> 'k \<times> 'v" where
  "touch k upd r = (row_id r, row_key r, if row_key r = k then upd (row_val r) else row_val r)"

text \<open>What a run of upserts does to the columns of an existing row with key \<open>k\<close>.\<close>

definition apply_ops :: "('a \<Rightarrow> 'k) \<Rightarrow> ('a \<Rightarrow> 'v \<Rightarrow> 'v) \<Rightarrow> 'a list \<Rightarrow> 'k \<Rightarrow> 'v \<Rightarrow> 'v" where
  "apply_ops kf upd ops k v = fold (\<lambda>a v. if kf a = k then upd a v else v) ops v"

text \<open>The last item of a batch with a given key.\<close>

definition last_with :: "('a \<Rightarrow> 'k) \<Rightarrow> 'k \<Rightarrow> 'a list \<Rightarrow> 'a option" where
  "last_with kf k ops = find (\<lambda>a. kf a = k) (rev ops)"

text \<open>
  The constraints of a table: the \<^verbatim>\<open>UNIQUE\<close> key holds (no two rows share a
  comparable key; rows whose key has a \<^verbatim>\<open>NULL\<close> are not constrained), the primary
  key holds, and the sequence is ahead of every id handed out.
\<close>

definition wf_table :: "('k \<Rightarrow> bool) \<Rightarrow> ('k, 'v) table \<times> nat \<Rightarrow> bool" where
  "wf_table c t =
     (distinct (filter c (map row_key (fst t))) \<and> distinct (map row_id (fst t))
      \<and> list_all (\<lambda>i. i < snd t) (map row_id (fst t)))"

text \<open>Every row of \<open>rows\<close> is still in \<open>rows'\<close>, at its place, with its id and key.\<close>

definition kept :: "('k, 'v) table \<Rightarrow> ('k, 'v) table \<Rightarrow> bool" where
  "kept rows rows' =
     (take (length rows) (map (\<lambda>r. (row_id r, row_key r)) rows')
        = map (\<lambda>r. (row_id r, row_key r)) rows)"

definition count_rows :: "'k \<Rightarrow> ('k, 'v) table \<Rightarrow> nat" where
  "count_rows k rows = length (filter (\<lambda>r. row_key r = k) rows)"

subsection \<open>Records the schema accepts\<close>

definition fits :: "nat \<Rightarrow> string \<Rightarrow> bool" where
  "fits n s = list_all (\<lambda>c. c = CHR '' '') (drop n s)"

definition game_ok :: "int \<Rightarrow> int \<Rightarrow> bool" where
  "game_ok wk yr = (int4 wk \<and> int4 yr)"

text \<open>A nullable value fits a column when it is \<^verbatim>\<open>NULL\<close> or a string that fits.\<close>

definition fits_null :: "nat \<Rightarrow> string option \<Rightarrow> bool" where
  "fits_null n v = (case v of None \<Rightarrow> True | Some s \<Rightarrow> fits n s)"

text \<open>
  A record that both statements of its iteration accept: the name is not \<^verbatim>\<open>NULL\<close>,
  the three text values fit their columns and the score fits \<^verbatim>\<open>DECIMAL(5,2)\<close>.
\<close>

definition player_ok :: "player \<Rightarrow> bool" where
  "player_ok p =
     (name p \<noteq> None \<and> fits_null 100 (name p) \<and> fits_null 3 (team p)
      \<and> fits_null 5 (position p) \<and> \<bar>round_2 (points_of p)\<bar> < 1000)"

text \<open>The record has a team, that is, its team is not \<^verbatim>\<open>None\<close>.\<close>

definition has_team :: "player \<Rightarrow> bool" where
  "has_team p = (team p \<noteq> None)"

text \<open>What is stored for a record that the schema accepts.\<close>

definition player_key :: "player \<Rightarrow> string \<times> string option" where
  "player_key p =
     (take 100 (case name p of None \<Rightarrow> '''' | Some s \<Rightarrow> s), map_option (take 3) (team p))"

definition player_position :: "player \<Rightarrow> string option" where
  "player_position p = map_option (take 5) (position p)"

definition player_points :: "player \<Rightarrow> rat" where
  "player_points p = round_2 (points_of p)"

subsection \<open>Databases\<close>

definition wf_database :: "database \<Rightarrow> bool" where
  "wf_database db =
     (wf_table player_cmp (players db, players_id_seq db)
      \<and> wf_table game_cmp (games db, games_id_seq db)
      \<and> wf_table stat_cmp (player_stats db, player_stats_id_seq db))"

definition same_rows :: "database \<Rightarrow> database \<Rightarrow> bool" where
  "same_rows db db' =
     (players db = players db' \<and> games db = games db' \<and> player_stats db = player_stats db')"

definition seqs_le :: "database \<Rightarrow> database \<Rightarrow> bool" where
  "seqs_le db db' =
     (players_id_seq db \<le> players_id_seq db' \<and> games_id_seq db \<le> games_id_seq db'
      \<and> player_stats_id_seq db \<le> player_stats_id_seq db')"

text \<open>
  The rows of a database without the two columns that record when a run happened:
  \<^verbatim>\<open>games.game_date\<close> and \<^verbatim>\<open>player_stats.updated_at\<close>.
\<close>

definition untimed ::
  "database \<Rightarrow> (string \<times> string option, string option \<times> nat) table
     \<times> (nat \<times> (int \<times> int) \<times> nat) list
     \<times> (nat \<times> (nat \<times> nat) \<times> rat) list" where
  "untimed db =
     (players db,
      map (\<lambda>r. (row_id r, row_key r, snd (row_val r))) (games db),
      map (\<lambda>r. (row_id r, row_key r, fst (row_val r))) (player_stats db))"

text \<open>
  The fantasy points stored for a player and a game, found as a query would: the player
  by \<open>(name, team)\<close>, the game by \<open>(week, year)\<close>, the statistics row by the two ids.
\<close>

definition stored_points ::
  "database \<Rightarrow> string \<times> string option \<Rightarrow> int \<Rightarrow> int \<Rightarrow> rat option" where
  "stored_points db key wk yr =
     (case find_row key (players db) of
        None \<Rightarrow> None
      | Some pr \<Rightarrow>
          (case find_row (wk, yr) (games db) of
             None \<Rightarrow> None
           | Some gr \<Rightarrow>
               map_option (\<lambda>r. fst (row_val r))
                 (find_row (row_id pr, row_id gr) (player_stats db))))"

text \<open>
  The position stored for a player, found by \<open>(name, team)\<close>: \<open>None\<close> when there is
  no such row, \<open>Some None\<close> when the row's position is \<^verbatim>\<open>NULL\<close>.
\<close>

definition stored_position :: "database \<Rightarrow> string \<times> string option \<Rightarrow> string option option" where
  "stored_position db key = map_option (\<lambda>r. fst (row_val r)) (find_row key (players db))"

subsection \<open>The statements of a run that meets no error\<close>

definition pins :: "nat \<Rightarrow> player \<Rightarrow> string option \<times> nat" where
  "pins now p = (player_position p, now)"

definition pupd :: "player \<Rightarrow> string option \<times> nat \<Rightarrow> string option \<times> nat" where
  "pupd p v = (player_position p, snd v)"

definition sins :: "nat \<Rightarrow> player \<Rightarrow> rat \<times> nat" where
  "sins now p = (player_points p, now)"

definition supd :: "nat \<Rightarrow> player \<Rightarrow> rat \<times> nat \<Rightarrow> rat \<times> nat" where
  "supd now p v = (player_points p, now)"

definition gupd :: "nat \<Rightarrow> nat \<times> nat \<Rightarrow> nat \<times> nat" where
  "gupd now v = (now, snd v)"

definition pid_in ::
  "(string \<times> string option, string option \<times> nat) table \<Rightarrow> player \<Rightarrow> nat" where
  "pid_in rows p = (case id_of (player_key p) rows of None \<Rightarrow> 0 | Some i \<Rightarrow> i)"

text \<open>The two statements of one iteration, when both succeed.\<close>

definition save_ok :: "nat \<Rightarrow> nat \<Rightarrow> database \<Rightarrow> player \<Rightarrow> database" where
  "save_ok now game_id db p =
     (let pu = upsert player_cmp (player_key p) (player_position p, now)
                 (\<lambda>v. (player_position p, snd v)) (players db, players_id_seq db);
          su = upsert stat_cmp (fst pu, game_id) (player_points p, now)
                 (\<lambda>v. (player_points p, now)) (player_stats db, player_stats_id_seq db)
      in db\<lparr>players := fst (snd pu), players_id_seq := snd (snd pu),
            player_stats := fst (snd su), player_stats_id_seq := snd (snd su)\<rparr>)"

definition game_upsert ::
  "database \<Rightarrow> nat \<Rightarrow> int \<Rightarrow> int \<Rightarrow> nat \<times> (int \<times> int, nat \<times> nat) table \<times> nat" where
  "game_upsert db now wk yr =
     upsert game_cmp (wk, yr) (now, now) (gupd now) (games db, games_id_seq db)"

definition with_game :: "database \<Rightarrow> nat \<Rightarrow> int \<Rightarrow> int \<Rightarrow> database" where
  "with_game db now wk yr =
     db\<lparr>games := fst (snd (game_upsert db now wk yr)),
        games_id_seq := snd (snd (game_upsert db now wk yr))\<rparr>"

subsection \<open>Example data\<close>

definition player_A :: player where
  "player_A =
     \<lparr>name = Some ''A'', team = Some ''KC'', position = Some ''QB'',
      stats = [''fantasy_points'' \<mapsto> 18]\<rparr>"

definition player_B_bad :: player where
  "player_B_bad =
     \<lparr>name = Some ''B'', team = Some ''KCXX'', position = Some ''RB'',
      stats = [''fantasy_points'' \<mapsto> 7]\<rparr>"

definition player_C :: player where
  "player_C =
     \<lparr>name = Some ''C'', team = Some ''SF'', position = Some ''WR'',
      stats = [''fantasy_points'' \<mapsto> 26]\<rparr>"

definition player_A_1000 :: player where
  "player_A_1000 =
     \<lparr>name = Some ''A'', team = Some ''KC'', position = Some ''QB'',
      stats = [''fantasy_points'' \<mapsto> 1000]\<rparr>"

definition player_A_long :: player where
  "player_A_long =
     \<lparr>name = Some ''A'', team = Some ''KC'', position = Some ''QUARTERBACK'',
      stats = [''fantasy_points'' \<mapsto> 18]\<rparr>"

definition player_A_RB :: player where
  "player_A_RB =
     \<lparr>name = Some ''A'', team = Some ''KC'', position = Some ''RB'',
      stats = [''fantasy_points'' \<mapsto> 20]\<rparr>"

text \<open>A free agent: the provider sends \<^verbatim>\<open>null\<close> for his team.\<close>

definition player_F :: player where
  "player_F =
     \<lparr>name = Some ''F'', team = None, position = Some ''WR'',
      stats = [''fantasy_points'' \<mapsto> 7]\<rparr>"

definition player_F_TE :: player where
  "player_F_TE =
     \<lparr>name = Some ''F'', team = None, position = Some ''TE'',
      stats = [''fantasy_points'' \<mapsto> 7]\<rparr>"

definition raw_A :: raw_stat where
  "raw_A = \<lparr>text_fields = [''Name'' \<mapsto> Some ''A'', ''Team'' \<mapsto> Some ''KC'',
                            ''Position'' \<mapsto> Some ''QB''],
            num_fields = [''PassingYards'' \<mapsto> 300, ''PassingTouchdowns'' \<mapsto> 2,
                          ''Interceptions'' \<mapsto> 1]\<rparr>"

text \<open>
  A world with both credentials set, a provider that answers week 7 and the given
  records, a secret store and a database server that accept, and an empty database.
\<close>

definition example_world :: "raw_stat list \<Rightarrow> world" where
  "example_world data =
     \<lparr>environ = [''DB_SECRET_ARN'' \<mapsto> ''arn'', ''SPORTSDATA_API_KEY'' \<mapsto> ''key''],
      current_week_json = Inr [''Week'' \<mapsto> 7],
      stats_json = (\<lambda>yr wk. Inr data),
      secret_string = (\<lambda>arn. Inr ''secret''),
      connect = (\<lambda>creds. Inr ()),
      stored = empty_database,
      clock = 5\<rparr>"

section \<open>Scoring\<close>

lemma py_round1_tenth: "\<exists>k::int. py_round1 x = of_int k / 10"
proof -
  have "\<exists>k::int. rat_of_int \<lfloor>x * 10\<rfloor> + 1 = of_int k"
    by (rule exI[of _ "\<lfloor>x * 10\<rfloor> + 1"]) simp
  then show ?thesis
    by (auto simp: py_round1_def Let_def)
qed

text \<open>
  C5. The three worked examples: all nine fields zero (or missing) gives 0.0; 300 passing
  yards, 2 passing touchdowns and 1 interception give 18.0; 10 receptions, 120 receiving
  yards, 1 receiving touchdown and 1 fumble give 26.0.
\<close>

theorem calculate_fantasy_points_examples:
  "calculate_fantasy_points \<lparr>text_fields = Map.empty, num_fields = Map.empty\<rparr> = 0
   \<and> calculate_fantasy_points \<lparr>text_fields = Map.empty,
        num_fields = [''PassingYards'' \<mapsto> 0, ''PassingTouchdowns'' \<mapsto> 0, ''Interceptions'' \<mapsto> 0,
          ''RushingYards'' \<mapsto> 0, ''RushingTouchdowns'' \<mapsto> 0, ''ReceivingYards'' \<mapsto> 0,
          ''ReceivingTouchdowns'' \<mapsto> 0, ''Receptions'' \<mapsto> 0, ''Fumbles'' \<mapsto> 0]\<rparr> = 0
   \<and> calculate_fantasy_points \<lparr>text_fields = Map.empty,
        num_fields = [''PassingYards'' \<mapsto> 300, ''PassingTouchdowns'' \<mapsto> 2, ''Interceptions'' \<mapsto> 1,
          ''RushingYards'' \<mapsto> 0, ''RushingTouchdowns'' \<mapsto> 0, ''ReceivingYards'' \<mapsto> 0,
          ''ReceivingTouchdowns'' \<mapsto> 0, ''Receptions'' \<mapsto> 0, ''Fumbles'' \<mapsto> 0]\<rparr> = 18
   \<and> calculate_fantasy_points \<lparr>text_fields = Map.empty,
        num_fields = [''PassingYards'' \<mapsto> 0, ''PassingTouchdowns'' \<mapsto> 0, ''Interceptions'' \<mapsto> 0,
          ''RushingYards'' \<mapsto> 0, ''RushingTouchdowns'' \<mapsto> 0, ''ReceivingYards'' \<mapsto> 120,
          ''ReceivingTouchdowns'' \<mapsto> 1, ''Receptions'' \<mapsto> 10, ''Fumbles'' \<mapsto> 1]\<rparr> = 26"
  by (simp add: calculate_fantasy_points_def get_num_def py_round1_def Let_def)

text \<open>
  C10. The scoring function of api_lambda.py and the scoring method of
  sportsdata_scraper.py return the same value on every record.
\<close>

theorem scoring_implementations_agree:
  "scraper_calculate_fantasy_points stat = calculate_fantasy_points stat"
  by (simp add: scraper_calculate_fantasy_points_def calculate_fantasy_points_def)

section \<open>The normalizer\<close>

text \<open>
  C9. Both normalizers return one record per input record, in the input's order; each
  output record carries the input's Name, Team and Position as they are, the empty string
  standing for a missing one, and the score of that input under \<open>fantasy_points\<close>.
  They are functions of their argument, which they only read.
\<close>

theorem normalizer_projection:
  "length (all_players_of stats_data) = length stats_data
   \<and> map name (all_players_of stats_data)
       = map (\<lambda>s. case text_fields s ''Name'' of None \<Rightarrow> Some '''' | Some v \<Rightarrow> v) stats_data
   \<and> map team (all_players_of stats_data)
       = map (\<lambda>s. case text_fields s ''Team'' of None \<Rightarrow> Some '''' | Some v \<Rightarrow> v) stats_data
   \<and> map position (all_players_of stats_data)
       = map (\<lambda>s. case text_fields s ''Position'' of None \<Rightarrow> Some '''' | Some v \<Rightarrow> v) stats_data
   \<and> map (\<lambda>p. stats p ''fantasy_points'') (all_players_of stats_data)
       = map (\<lambda>s. Some (calculate_fantasy_points s)) stats_data
   \<and> length (format_player_data stats_data wk yr) = length stats_data
   \<and> map name (format_player_data stats_data wk yr)
       = map (\<lambda>s. case text_fields s ''Name'' of None \<Rightarrow> Some '''' | Some v \<Rightarrow> v) stats_data
   \<and> map team (format_player_data stats_data wk yr)
       = map (\<lambda>s. case text_fields s ''Team'' of None \<Rightarrow> Some '''' | Some v \<Rightarrow> v) stats_data
   \<and> map position (format_player_data stats_data wk yr)
       = map (\<lambda>s. case text_fields s ''Position'' of None \<Rightarrow> Some '''' | Some v \<Rightarrow> v) stats_data
   \<and> map (\<lambda>p. stats p ''fantasy_points'') (format_player_data stats_data wk yr)
       = map (\<lambda>s. Some (scraper_calculate_fantasy_points s)) stats_data"
  by (simp add: all_players_of_def format_player_data_def format_player_def
      format_scraper_player_def get_text_def Let_def)

section \<open>Tables: one upsert\<close>

lemma row_simps [simp]:
  "row_id (i, k, v) = i" "row_key (i, k, v) = k" "row_val (i, k, v) = v"
  by (simp_all add: row_id_def row_key_def row_val_def)

lemma row_eta: "(row_id r, row_key r, row_val r) = r"
  by (cases r) simp

lemma cmp_simps [simp]:
  "player_cmp (n, tm) = (tm \<noteq> None)" "game_cmp g" "stat_cmp s"
  by (simp_all add: player_cmp_def game_cmp_def stat_cmp_def)

lemma touch_simps [simp]:
  "row_id (touch k upd r) = row_id r" "row_key (touch k upd r) = row_key r"
  "row_val (touch k upd r) = (if row_key r = k then upd (row_val r) else row_val r)"
  by (simp_all add: touch_def)

lemma find_row_None: "find_row k rows = None \<longleftrightarrow> k \<notin> set (map row_key rows)"
  by (induction rows) (auto simp: find_row_def)

lemma find_row_Some: "find_row k rows = Some r \<Longrightarrow> r \<in> set rows \<and> row_key r = k"
  by (auto simp: find_row_def find_Some_iff)

lemma find_row_touch:
  "find_row k' (map (touch k upd) rows) = map_option (touch k upd) (find_row k' rows)"
  by (induction rows) (simp_all add: find_row_def)

lemma find_row_append:
  "find_row k (rows @ rows') = (case find_row k rows of None \<Rightarrow> find_row k rows' | Some r \<Rightarrow> Some r)"
  by (induction rows) (simp_all add: find_row_def)

lemma upsert_insert:
  "\<not> c k \<or> find_row k (fst t) = None \<Longrightarrow>
   upsert c k ins upd t = (snd t, fst t @ [(snd t, k, ins)], Suc (snd t))"
  by (auto simp: upsert_def)

lemma upsert_conflict:
  "c k \<Longrightarrow> find_row k (fst t) = Some r \<Longrightarrow>
   upsert c k ins upd t = (row_id r, map (touch k upd) (fst t), Suc (snd t))"
proof -
  have "(\<lambda>r'. if row_key r' = k then (row_id r', k, upd (row_val r')) else r') = touch k upd"
    by (rule ext) (auto simp: touch_def row_eta)
  then show "c k \<Longrightarrow> find_row k (fst t) = Some r \<Longrightarrow> ?thesis"
    by (simp add: upsert_def)
qed

text \<open>An upsert either appends a row or updates the rows in place.\<close>

lemma upsert_cases:
  obtains (insert) "\<not> c k \<or> k \<notin> set (map row_key (fst t))"
      "upsert c k ins upd t = (snd t, fst t @ [(snd t, k, ins)], Suc (snd t))"
    | (conflict) r where "c k" "k \<in> set (map row_key (fst t))" "find_row k (fst t) = Some r"
      "upsert c k ins upd t = (row_id r, map (touch k upd) (fst t), Suc (snd t))"
proof (cases "c k \<and> find_row k (fst t) \<noteq> None")
  case True
  then obtain r where r: "c k" "find_row k (fst t) = Some r"
    by auto
  then have "k \<in> set (map row_key (fst t))"
    using find_row_None[of k "fst t"] by auto
  with r show ?thesis
    by (intro conflict[of r] upsert_conflict)
next
  case False
  then have a: "\<not> c k \<or> find_row k (fst t) = None"
    by (cases "find_row k (fst t)") simp_all
  then have b: "\<not> c k \<or> k \<notin> set (map row_key (fst t))"
    by (simp add: find_row_None)
  have "upsert c k ins upd t = (snd t, fst t @ [(snd t, k, ins)], Suc (snd t))"
    using a by (rule upsert_insert[where c = c])
  with b show ?thesis
    by (rule insert)
qed

lemma upsert_seq [simp]: "snd (snd (upsert c k ins upd t)) = Suc (snd t)"
  by (cases rule: upsert_cases[of c k t ins upd]) simp_all

lemma id_of_upsert_self:
  assumes "c k"
  shows "id_of k (fst (snd (upsert c k ins upd t))) = Some (fst (upsert c k ins upd t))"
proof (cases "find_row k (fst t)")
  case None
  then show ?thesis
    by (simp add: upsert_insert id_of_def find_row_append) (simp add: find_row_def)
next
  case (Some r)
  then show ?thesis
    using assms by (simp add: upsert_conflict id_of_def find_row_touch)
qed

lemma id_of_upsert_other:
  assumes "id_of k' (fst t) = Some i"
  shows "id_of k' (fst (snd (upsert c k ins upd t))) = Some i"
proof -
  from assms obtain r' where r': "find_row k' (fst t) = Some r'" "row_id r' = i"
    by (auto simp: id_of_def)
  show ?thesis
  proof (cases rule: upsert_cases[of c k t ins upd])
    case insert
    then show ?thesis
      using r' by (simp add: id_of_def find_row_append)
  next
    case (conflict r)
    then show ?thesis
      using r' by (simp add: id_of_def find_row_touch)
  qed
qed

lemma keys_upsert:
  "map row_key (fst (snd (upsert c k ins upd t))) =
     (if c k \<and> k \<in> set (map row_key (fst t)) then map row_key (fst t)
      else map row_key (fst t) @ [k])"
proof (cases rule: upsert_cases[of c k t ins upd])
  case insert
  then show ?thesis
    by auto
next
  case (conflict r)
  then show ?thesis
    by (simp add: comp_def)
qed

lemma ids_upsert:
  "map row_id (fst (snd (upsert c k ins upd t))) =
     (if c k \<and> k \<in> set (map row_key (fst t)) then map row_id (fst t)
      else map row_id (fst t) @ [snd t])"
proof (cases rule: upsert_cases[of c k t ins upd])
  case insert
  then show ?thesis
    by auto
next
  case (conflict r)
  then show ?thesis
    by (simp add: comp_def)
qed

lemma wf_upsert: "wf_table c t \<Longrightarrow> wf_table c (snd (upsert c k ins upd t))"
  unfolding wf_table_def keys_upsert ids_upsert
  by (auto simp: list_all_iff)

section \<open>Tables: a run of upserts\<close>

lemma apply_ops_simps [simp]:
  "apply_ops kf upd [] k v = v"
  "apply_ops kf upd (a # ops) k v = apply_ops kf upd ops k (if kf a = k then upd a v else v)"
  "apply_ops kf upd (ops @ [a]) k v =
     (if kf a = k then upd a (apply_ops kf upd ops k v) else apply_ops kf upd ops k v)"
  by (simp_all add: apply_ops_def)

lemma apply_ops_untouched: "k \<notin> kf ` set ops \<Longrightarrow> apply_ops kf upd ops k v = v"
  by (induction ops arbitrary: v) auto

lemma mem_upsert_other:
  assumes "r \<in> set (fst (snd (upsert c k ins upd t)))" and "row_key r \<noteq> k"
  shows "r \<in> set (fst t)"
proof (cases rule: upsert_cases[of c k t ins upd])
  case insert
  with assms show ?thesis
    by auto
next
  case (conflict r0)
  with assms obtain r1 where r1: "r1 \<in> set (fst t)" "r = touch k upd r1"
    by auto
  with assms(2) have "row_key r1 \<noteq> k"
    by simp
  then have "touch k upd r1 = r1"
    by (simp add: touch_def row_eta)
  with r1 show ?thesis
    by simp
qed

lemma mem_upsert_self:
  assumes "r \<in> set (fst (snd (upsert c k ins upd t)))" and "row_key r = k" and "c k"
  shows "row_val r = ins \<or> (\<exists>v0. row_val r = upd v0)"
proof (cases rule: upsert_cases[of c k t ins upd])
  case insert
  with assms(3) have "k \<notin> set (map row_key (fst t))"
    by simp
  with assms(2) have "r \<notin> set (fst t)"
    by auto
  with assms(1) insert have "r = (snd t, k, ins)"
    by simp
  then show ?thesis
    by simp
next
  case (conflict r0)
  with assms obtain r1 where r1: "r1 \<in> set (fst t)" "r = touch k upd r1"
    by auto
  with assms(2) show ?thesis
    by auto
qed

lemma upsert_present:
  assumes "c k" and "k \<in> set (map row_key (fst t))"
  shows "snd (upsert c k ins upd t) = (map (touch k upd) (fst t), Suc (snd t))"
  using assms by (cases rule: upsert_cases[of c k t ins upd]) simp_all

lemma upsert_all_seq [simp]: "snd (upsert_all c kf ins upd ops t) = snd t + length ops"
  by (induction ops arbitrary: t) simp_all

lemma keys_upsert_set:
  "set (map row_key (fst (snd (upsert c k ins upd t)))) = insert k (set (map row_key (fst t)))"
  unfolding keys_upsert by auto

lemma keys_upsert_all:
  "set (map row_key (fst (upsert_all c kf ins upd ops t)))
     = set (map row_key (fst t)) \<union> kf ` set ops"
proof (induction ops arbitrary: t)
  case Nil
  then show ?case by simp
next
  case (Cons a ops)
  show ?case
    unfolding upsert_all.simps Cons.IH keys_upsert_set by auto
qed

lemma wf_upsert_all: "wf_table c t \<Longrightarrow> wf_table c (upsert_all c kf ins upd ops t)"
  by (induction ops arbitrary: t) (simp_all add: wf_upsert)

lemma id_of_upsert_all:
  "id_of k (fst t) = Some i \<Longrightarrow> id_of k (fst (upsert_all c kf ins upd ops t)) = Some i"
  by (induction ops arbitrary: t) (simp_all add: id_of_upsert_other)

lemma mem_upsert_all_other:
  "r \<in> set (fst (upsert_all c kf ins upd ops t)) \<Longrightarrow> row_key r \<notin> kf ` set ops
   \<Longrightarrow> r \<in> set (fst t)"
proof (induction ops arbitrary: t)
  case Nil
  then show ?case by simp
next
  case (Cons a ops)
  from Cons.prems have "r \<in> set (fst (snd (upsert c (kf a) (ins a) (upd a) t)))"
    by (intro Cons.IH[of "snd (upsert c (kf a) (ins a) (upd a) t)"]) simp_all
  moreover from Cons.prems have "row_key r \<noteq> kf a"
    by auto
  ultimately show ?case
    by (rule mem_upsert_other)
qed

lemma upsert_all_present:
  "kf ` set ops \<subseteq> set (map row_key (fst t)) \<Longrightarrow> list_all (\<lambda>a. c (kf a)) ops \<Longrightarrow>
   upsert_all c kf ins upd ops t =
     (map (\<lambda>r. (row_id r, row_key r, apply_ops kf upd ops (row_key r) (row_val r))) (fst t),
      snd t + length ops)"
proof (induction ops arbitrary: t)
  case Nil
  then show ?case
    by (simp add: row_eta)
next
  case (Cons a ops)
  let ?t' = "(map (touch (kf a) (upd a)) (fst t), Suc (snd t))"
  have a: "snd (upsert c (kf a) (ins a) (upd a) t) = ?t'"
    using Cons.prems by (intro upsert_present) simp_all
  have "kf ` set ops \<subseteq> set (map row_key (fst ?t'))"
    using Cons.prems by (simp add: comp_def)
  moreover have "list_all (\<lambda>a. c (kf a)) ops"
    using Cons.prems by simp
  ultimately have "upsert_all c kf ins upd ops ?t' =
     (map (\<lambda>r. (row_id r, row_key r, apply_ops kf upd ops (row_key r) (row_val r))) (fst ?t'),
      snd ?t' + length ops)"
    by (rule Cons.IH)
  then show ?case
    by (simp add: a comp_def)
qed

lemma apply_ops_overwrite:
  assumes "\<And>a b v. upd a (upd b v) = upd a v" and "k \<in> kf ` set ops"
  shows "apply_ops kf upd ops k (upd b v) = apply_ops kf upd ops k v"
  using assms(2)
proof (induction ops arbitrary: v b)
  case Nil
  then show ?case by simp
next
  case (Cons a ops)
  show ?case
  proof (cases "k \<in> kf ` set ops")
    case True
    then show ?thesis
      by (simp add: Cons.IH)
  next
    case False
    with Cons.prems have "kf a = k" by auto
    with False show ?thesis
      by (simp add: apply_ops_untouched assms(1))
  qed
qed

lemma upsert_all_fixpoint:
  assumes ov: "\<And>a b v. upd a (upd b v) = upd a v" and ins: "\<And>a. upd a (ins a) = ins a"
    and c: "c (row_key r)"
  shows "r \<in> set (fst (upsert_all c kf ins upd ops t)) \<Longrightarrow>
         apply_ops kf upd ops (row_key r) (row_val r) = row_val r"
proof (induction ops arbitrary: t)
  case Nil
  then show ?case by simp
next
  case (Cons a ops)
  let ?t' = "snd (upsert c (kf a) (ins a) (upd a) t)"
  from Cons.prems have r: "r \<in> set (fst (upsert_all c kf ins upd ops ?t'))"
    by simp
  note IH = Cons.IH[OF r]
  show ?case
  proof (cases "kf a = row_key r")
    case False
    then show ?thesis
      using IH by simp
  next
    case same: True
    show ?thesis
    proof (cases "row_key r \<in> kf ` set ops")
      case True
      have "apply_ops kf upd ops (row_key r) (upd a (row_val r)) = row_val r"
        using apply_ops_overwrite[of upd "row_key r" kf ops a "row_val r", OF ov True] IH
        by simp
      with same show ?thesis
        by simp
    next
      case False
      then have "r \<in> set (fst ?t')"
        using r by (rule mem_upsert_all_other[rotated])
      then have "row_val r = ins a \<or> (\<exists>v0. row_val r = upd a v0)"
        using same c by (intro mem_upsert_self[where c = c]) simp_all
      then have "upd a (row_val r) = row_val r"
        using ov ins by auto
      with False same show ?thesis
        by (simp add: apply_ops_untouched)
    qed
  qed
qed

section \<open>The loop over the players\<close>

lemma varchar_fits: "varchar n s = (if fits n s then Inr (take n s) else Inl StringDataRightTruncation)"
  by (simp add: varchar_def fits_def)

lemma varchar_null_fits:
  "varchar_null n v =
     (if fits_null n v then Inr (map_option (take n) v) else Inl StringDataRightTruncation)"
  by (cases v) (simp_all add: varchar_null_def varchar_fits fits_null_def)

lemma save_player_ok:
  assumes "player_ok p" and "\<not> aborted t"
  shows "save_player now g t p = t\<lparr>cur := save_ok now g (cur t) p, success_count := success_count t + 1\<rparr>"
  using assms
  by (auto simp: save_player_def save_player_try_def insert_player_def insert_player_stats_def
      varchar_null_fits decimal_5_2_def player_ok_def save_ok_def player_key_def
      player_position_def player_points_def Let_def case_prod_beta)

lemma save_player_aborted: "aborted t \<Longrightarrow> save_player now g t p = t"
  by (simp add: save_player_def save_player_try_def)

lemma save_player_not_ok: "\<not> player_ok p \<Longrightarrow> aborted (save_player now g t p)"
  by (auto simp: save_player_def save_player_try_def insert_player_def insert_player_stats_def
      varchar_null_fits decimal_5_2_def player_ok_def Let_def case_prod_beta
      split: sum.splits option.splits)

lemma process_players_aborted: "aborted t \<Longrightarrow> process_players now g ps t = t"
  by (induction ps) (simp_all add: process_players_def save_player_aborted)

lemma process_players_Cons:
  "process_players now g (p # ps) t = process_players now g ps (save_player now g t p)"
  by (simp add: process_players_def)

lemma process_players_not_ok:
  "\<not> list_all player_ok ps \<Longrightarrow> aborted (process_players now g ps t)"
proof (induction ps arbitrary: t)
  case Nil
  then show ?case by simp
next
  case (Cons p ps)
  show ?case
  proof (cases "player_ok p")
    case True
    with Cons.prems have "\<not> list_all player_ok ps" by simp
    then show ?thesis
      unfolding process_players_Cons by (rule Cons.IH)
  next
    case False
    then have "aborted (save_player now g t p)"
      by (rule save_player_not_ok)
    then show ?thesis
      unfolding process_players_Cons by (simp add: process_players_aborted)
  qed
qed

lemma process_players_ok:
  "list_all player_ok ps \<Longrightarrow> \<not> aborted t \<Longrightarrow>
   process_players now g ps t =
     t\<lparr>cur := foldl (save_ok now g) (cur t) ps, success_count := success_count t + length ps\<rparr>"
proof (induction ps arbitrary: t)
  case Nil
  then show ?case by (simp add: process_players_def)
next
  case (Cons p ps)
  from Cons.prems have p: "player_ok p" and ps: "list_all player_ok ps"
    by simp_all
  let ?t = "t\<lparr>cur := save_ok now g (cur t) p, success_count := success_count t + 1\<rparr>"
  have "\<not> aborted ?t" using Cons.prems by simp
  from Cons.IH[OF ps this] show ?case
    unfolding process_players_Cons save_player_ok[OF p Cons.prems(2)] by simp
qed

section \<open>A run without error, table by table\<close>

lemma player_cmp_key [simp]: "player_cmp (player_key p) = has_team p"
  by (simp add: player_cmp_def player_key_def has_team_def)

lemma save_ok_alt:
  "save_ok now g db p =
     (let pu = upsert player_cmp (player_key p) (pins now p) (pupd p)
                 (players db, players_id_seq db);
          su = upsert stat_cmp (fst pu, g) (sins now p) (supd now p)
                 (player_stats db, player_stats_id_seq db)
      in db\<lparr>players := fst (snd pu), players_id_seq := snd (snd pu),
            player_stats := fst (snd su), player_stats_id_seq := snd (snd su)\<rparr>)"
proof -
  have "(\<lambda>v. (player_position p, snd v)) = pupd p" "(\<lambda>v. (player_points p, now)) = supd now p"
    by (simp_all add: pupd_def supd_def fun_eq_iff)
  then show ?thesis
    by (simp add: save_ok_def pins_def sins_def)
qed

lemma save_ok_players:
  "(players (save_ok now g db p), players_id_seq (save_ok now g db p)) =
     snd (upsert player_cmp (player_key p) (pins now p) (pupd p) (players db, players_id_seq db))"
  by (simp add: save_ok_alt Let_def del: upsert_seq)

lemma save_ok_stats:
  "(player_stats (save_ok now g db p), player_stats_id_seq (save_ok now g db p)) =
     snd (upsert stat_cmp
            (fst (upsert player_cmp (player_key p) (pins now p) (pupd p)
                    (players db, players_id_seq db)), g)
            (sins now p) (supd now p) (player_stats db, player_stats_id_seq db))"
  by (simp add: save_ok_alt Let_def del: upsert_seq)

lemma save_ok_games [simp]:
  "games (save_ok now g db p) = games db" "games_id_seq (save_ok now g db p) = games_id_seq db"
  by (simp_all add: save_ok_alt Let_def)

lemma save_all_games [simp]:
  "games (foldl (save_ok now g) db ps) = games db"
  "games_id_seq (foldl (save_ok now g) db ps) = games_id_seq db"
  by (induction ps arbitrary: db) simp_all

lemma save_all_players:
  "(players (foldl (save_ok now g) db ps), players_id_seq (foldl (save_ok now g) db ps)) =
     upsert_all player_cmp player_key (pins now) pupd ps (players db, players_id_seq db)"
proof (induction ps arbitrary: db)
  case Nil
  then show ?case by simp
next
  case (Cons p ps)
  show ?case
    unfolding foldl_Cons Cons.IH save_ok_players upsert_all.simps ..
qed

lemma save_all_players_fst:
  "players (foldl (save_ok now g) db ps) =
     fst (upsert_all player_cmp player_key (pins now) pupd ps (players db, players_id_seq db))"
  using save_all_players[of now g db ps, THEN arg_cong, of fst] by simp

text \<open>
  When every record has a team, the id that the player statement returns for a record is
  the id its key has at the end of the run, so the statistics statements are a run of
  upserts of their own.
\<close>

lemma save_all_stats:
  "list_all has_team ps \<Longrightarrow>
   (player_stats (foldl (save_ok now g) db ps), player_stats_id_seq (foldl (save_ok now g) db ps)) =
     upsert_all stat_cmp (\<lambda>p. (pid_in (players (foldl (save_ok now g) db ps)) p, g))
       (sins now) (supd now) ps (player_stats db, player_stats_id_seq db)"
proof (induction ps arbitrary: db)
  case Nil
  then show ?case by simp
next
  case (Cons p ps)
  then have p: "has_team p" and ps: "list_all has_team ps"
    by simp_all
  let ?db' = "save_ok now g db p"
  let ?PF = "players (foldl (save_ok now g) ?db' ps)"
  let ?pu = "upsert player_cmp (player_key p) (pins now p) (pupd p) (players db, players_id_seq db)"
  have "id_of (player_key p) (fst (snd ?pu)) = Some (fst ?pu)"
    using p by (intro id_of_upsert_self) simp
  then have "id_of (player_key p) (fst (players ?db', players_id_seq ?db')) = Some (fst ?pu)"
    unfolding save_ok_players .
  then have "id_of (player_key p)
       (fst (upsert_all player_cmp player_key (pins now) pupd ps
               (players ?db', players_id_seq ?db'))) = Some (fst ?pu)"
    by (rule id_of_upsert_all)
  then have "id_of (player_key p) ?PF = Some (fst ?pu)"
    unfolding save_all_players_fst .
  then have pid: "pid_in ?PF p = fst ?pu"
    by (simp add: pid_in_def)
  show ?case
    unfolding foldl_Cons Cons.IH[OF ps] upsert_all.simps pid save_ok_stats ..
qed

section \<open>The three outcomes of a run\<close>

lemma insert_game_eq:
  "insert_game db now wk yr =
     (if game_ok wk yr then Inr (fst (game_upsert db now wk yr), with_game db now wk yr)
      else Inl NumericValueOutOfRange)"
proof -
  have "(\<lambda>v. (now, snd v)) = gupd now"
    by (simp add: gupd_def fun_eq_iff)
  then show ?thesis
    by (simp add: insert_game_def game_ok_def with_game_def game_upsert_def case_prod_beta
        del: upsert_seq)
qed

lemma persist_week_not_game_ok:
  "\<not> game_ok wk yr \<Longrightarrow> persist_week db now wk yr ps = Inl NumericValueOutOfRange"
  by (simp add: persist_week_def insert_game_eq)

lemma persist_week_ok:
  assumes "game_ok wk yr" and "list_all player_ok ps"
  shows "persist_week db now wk yr ps =
           Inr (length ps,
                foldl (save_ok now (fst (game_upsert db now wk yr))) (with_game db now wk yr) ps)"
  using assms
  by (simp add: persist_week_def insert_game_eq process_players_ok commit_def Let_def)

lemma db_after_ok:
  assumes "game_ok wk yr" and "list_all player_ok ps"
  shows "db_after db now wk yr ps =
           foldl (save_ok now (fst (game_upsert db now wk yr))) (with_game db now wk yr) ps"
  by (simp add: db_after_def persist_week_ok[OF assms])

lemma db_after_not_game_ok: "\<not> game_ok wk yr \<Longrightarrow> db_after db now wk yr ps = db"
  by (simp add: db_after_def persist_week_not_game_ok)

lemma seqs_le_refl [simp]: "seqs_le db db"
  by (simp add: seqs_le_def)

lemma seqs_le_trans: "seqs_le a b \<Longrightarrow> seqs_le b c \<Longrightarrow> seqs_le a c"
  by (auto simp: seqs_le_def)

lemma seqs_le_save_player: "seqs_le (cur t) (cur (save_player now g t p))"
  by (auto simp: save_player_def save_player_try_def insert_player_def insert_player_stats_def
      seqs_le_def Let_def case_prod_beta split: sum.splits option.splits)

lemma seqs_le_process_players: "seqs_le (cur t) (cur (process_players now g ps t))"
proof (induction ps arbitrary: t)
  case Nil
  then show ?case by (simp add: process_players_def)
next
  case (Cons p ps)
  show ?case
    unfolding process_players_Cons
    by (rule seqs_le_trans[OF seqs_le_save_player Cons.IH])
qed

lemma seqs_le_with_game: "seqs_le db (with_game db now wk yr)"
  by (simp add: seqs_le_def with_game_def game_upsert_def)

lemma db_after_not_ok:
  assumes "game_ok wk yr" and "\<not> list_all player_ok ps"
  shows "same_rows (db_after db now wk yr ps) db \<and> seqs_le db (db_after db now wk yr ps)"
proof -
  let ?start = "\<lparr>cur = with_game db now wk yr, aborted = False, success_count = 0\<rparr>"
  let ?t = "process_players now (fst (game_upsert db now wk yr)) ps ?start"
  have a: "aborted ?t"
    using assms(2) by (rule process_players_not_ok)
  have "seqs_le (cur ?start) (cur ?t)"
    by (rule seqs_le_process_players)
  then have "seqs_le db (cur ?t)"
    using seqs_le_with_game[of db now wk yr] by (auto intro: seqs_le_trans)
  moreover have "db_after db now wk yr ps = commit db ?t"
    using assms(1) by (simp add: db_after_def persist_week_def insert_game_eq Let_def)
  ultimately show ?thesis
    using a by (simp add: commit_def same_rows_def seqs_le_def)
qed

lemma wf_table_mono: "wf_table c (rows, s) \<Longrightarrow> s \<le> s' \<Longrightarrow> wf_table c (rows, s')"
  by (auto simp: wf_table_def list_all_iff)

lemma wf_database_same_rows:
  "wf_database db \<Longrightarrow> same_rows db' db \<Longrightarrow> seqs_le db db' \<Longrightarrow> wf_database db'"
  by (auto simp: wf_database_def same_rows_def seqs_le_def intro: wf_table_mono)

lemma wf_with_game: "wf_database db \<Longrightarrow> wf_database (with_game db now wk yr)"
  using wf_upsert[of game_cmp "(games db, games_id_seq db)" "(wk, yr)" "(now, now)" "gupd now"]
  by (simp add: wf_database_def with_game_def game_upsert_def del: upsert_seq)

lemma wf_save_ok:
  assumes "wf_database db"
  shows "wf_database (save_ok now g db p)"
proof -
  let ?pu = "upsert player_cmp (player_key p) (pins now p) (pupd p) (players db, players_id_seq db)"
  have "wf_table player_cmp (snd ?pu)"
    using assms by (intro wf_upsert) (simp add: wf_database_def)
  then have a: "wf_table player_cmp
      (players (save_ok now g db p), players_id_seq (save_ok now g db p))"
    unfolding save_ok_players .
  have "wf_table stat_cmp
      (snd (upsert stat_cmp (fst ?pu, g) (sins now p) (supd now p)
              (player_stats db, player_stats_id_seq db)))"
    using assms by (intro wf_upsert) (simp add: wf_database_def)
  then have b: "wf_table stat_cmp
      (player_stats (save_ok now g db p), player_stats_id_seq (save_ok now g db p))"
    unfolding save_ok_stats .
  from a b assms show ?thesis
    by (simp add: wf_database_def)
qed

lemma wf_save_all: "wf_database db \<Longrightarrow> wf_database (foldl (save_ok now g) db ps)"
  by (induction ps arbitrary: db) (simp_all add: wf_save_ok)

lemma wf_db_after: "wf_database db \<Longrightarrow> wf_database (db_after db now wk yr ps)"
proof (cases "game_ok wk yr")
  case False
  then show "wf_database db \<Longrightarrow> ?thesis"
    by (simp add: db_after_not_game_ok)
next
  case True
  show "wf_database db \<Longrightarrow> ?thesis"
  proof (cases "list_all player_ok ps")
    case True
    then show "wf_database db \<Longrightarrow> ?thesis"
      by (simp add: db_after_ok[OF \<open>game_ok wk yr\<close>] wf_save_all wf_with_game)
  next
    case False
    then show "wf_database db \<Longrightarrow> ?thesis"
      using db_after_not_ok[OF \<open>game_ok wk yr\<close> False, of db now]
      by (auto intro: wf_database_same_rows)
  qed
qed

section \<open>Running the same upserts again\<close>

lemma last_with_simps [simp]:
  "last_with kf k [] = None"
  "last_with kf k (ops @ [a]) = (if kf a = k then Some a else last_with kf k ops)"
  by (simp_all add: last_with_def)

lemma last_with_None: "last_with kf k ops = None \<longleftrightarrow> k \<notin> kf ` set ops"
  by (auto simp: last_with_def find_None_iff)

lemma last_with_Some: "last_with kf k ops = Some a \<Longrightarrow> a \<in> set ops \<and> kf a = k"
  by (auto simp: last_with_def find_Some_iff) (metis nth_mem set_rev length_rev)

lemma apply_ops_last:
  assumes "\<And>a b v. upd a (upd b v) = upd a v"
  shows "apply_ops kf upd ops k v = (case last_with kf k ops of None \<Rightarrow> v | Some a \<Rightarrow> upd a v)"
  by (induction ops rule: rev_induct) (auto simp: assms split: option.splits)

lemma apply_ops_obs:
  assumes "\<And>a v v'. obs v = obs v' \<Longrightarrow> obs (upd' a v) = obs (upd a v')"
  shows "obs v = obs v' \<Longrightarrow> obs (apply_ops kf upd' ops k v) = obs (apply_ops kf upd ops k v')"
proof (induction ops arbitrary: v v')
  case Nil
  then show ?case by simp
next
  case (Cons a ops)
  show ?case
  proof (cases "kf a = k")
    case True
    have "obs (upd' a v) = obs (upd a v')"
      using Cons.prems by (rule assms)
    then have "obs (apply_ops kf upd' ops k (upd' a v)) = obs (apply_ops kf upd ops k (upd a v'))"
      by (rule Cons.IH)
    with True show ?thesis by simp
  next
    case False
    with Cons.IH[OF Cons.prems] show ?thesis by simp
  qed
qed

lemma upsert_all_twice_obs:
  assumes ov: "\<And>a b v. upd a (upd b v) = upd a v" and insl: "\<And>a. upd a (ins a) = ins a"
    and obs: "\<And>a v v'. obs v = obs v' \<Longrightarrow> obs (upd' a v) = obs (upd a v')"
    and c: "list_all (\<lambda>a. c (kf a)) ops"
  shows "map (\<lambda>r. (row_id r, row_key r, obs (row_val r)))
           (fst (upsert_all c kf ins' upd' ops (upsert_all c kf ins upd ops t)))
         = map (\<lambda>r. (row_id r, row_key r, obs (row_val r))) (fst (upsert_all c kf ins upd ops t))"
proof -
  let ?t1 = "upsert_all c kf ins upd ops t"
  have "kf ` set ops \<subseteq> set (map row_key (fst ?t1))"
    unfolding keys_upsert_all by simp
  then have e: "upsert_all c kf ins' upd' ops ?t1 =
      (map (\<lambda>r. (row_id r, row_key r, apply_ops kf upd' ops (row_key r) (row_val r))) (fst ?t1),
       snd ?t1 + length ops)"
    using c by (rule upsert_all_present)
  have "obs (apply_ops kf upd' ops (row_key r) (row_val r)) = obs (row_val r)"
    if "r \<in> set (fst ?t1)" for r
  proof (cases "row_key r \<in> kf ` set ops")
    case True
    then have cr: "c (row_key r)"
      using c by (auto simp: list_all_iff)
    have "obs (apply_ops kf upd' ops (row_key r) (row_val r))
            = obs (apply_ops kf upd ops (row_key r) (row_val r))"
      by (rule apply_ops_obs[where obs = obs and upd = upd and upd' = upd']) (simp_all add: obs)
    also have "apply_ops kf upd ops (row_key r) (row_val r) = row_val r"
      using that by (rule upsert_all_fixpoint[where c = c, OF ov insl cr])
    finally show ?thesis .
  next
    case False
    then show ?thesis
      by (simp add: apply_ops_untouched)
  qed
  then show ?thesis
    unfolding e by (simp add: comp_def)
qed

lemma upsert_all_twice:
  assumes ov: "\<And>a b v. upd a (upd b v) = upd a v" and insl: "\<And>a. upd a (ins a) = ins a"
    and c: "list_all (\<lambda>a. c (kf a)) ops"
  shows "fst (upsert_all c kf ins' upd ops (upsert_all c kf ins upd ops t))
           = fst (upsert_all c kf ins upd ops t)"
  using upsert_all_twice_obs[of upd ins "\<lambda>v. v" upd c kf ops ins' t, OF ov insl _ c]
  by (simp add: row_eta)

lemma upsert_all_last:
  assumes ov: "\<And>a b v. upd a (upd b v) = upd a v" and insl: "\<And>a. upd a (ins a) = ins a"
    and "r \<in> set (fst (upsert_all c kf ins upd ops t))" and "last_with kf (row_key r) ops = Some a"
    and "c (row_key r)"
  shows "row_val r = upd a (row_val r)"
  using upsert_all_fixpoint[of upd ins c r kf ops t, OF ov insl assms(5) assms(3)]
    apply_ops_last[of upd kf ops "row_key r" "row_val r", OF ov] assms(4)
  by simp

section \<open>Running the persistence step again\<close>

lemma pupd_laws: "pupd a (pupd b v) = pupd a v" "pupd a (pins now a) = pins now a"
  by (simp_all add: pupd_def pins_def)

lemma supd_laws: "supd now a (supd now b v) = supd now a v" "supd now a (sins now a) = sins now a"
  by (simp_all add: supd_def sins_def)

lemma with_game_other [simp]:
  "players (with_game db now wk yr) = players db"
  "players_id_seq (with_game db now wk yr) = players_id_seq db"
  "player_stats (with_game db now wk yr) = player_stats db"
  "player_stats_id_seq (with_game db now wk yr) = player_stats_id_seq db"
  by (simp_all add: with_game_def)

lemma game_id_after:
  "id_of (wk, yr) (games (with_game db now wk yr)) = Some (fst (game_upsert db now wk yr))"
  by (simp add: with_game_def game_upsert_def id_of_upsert_self)

lemma game_id_known:
  assumes "id_of (wk, yr) (games db) = Some g"
  shows "fst (game_upsert db now wk yr) = g"
proof -
  have "id_of (wk, yr) (fst (snd (game_upsert db now wk yr))) = Some g"
    unfolding game_upsert_def using assms by (intro id_of_upsert_other) simp
  moreover have "id_of (wk, yr) (fst (snd (game_upsert db now wk yr)))
                   = Some (fst (game_upsert db now wk yr))"
    unfolding game_upsert_def by (rule id_of_upsert_self) simp
  ultimately show ?thesis by simp
qed

lemma id_of_present: "id_of k rows = Some i \<Longrightarrow> k \<in> set (map row_key rows)"
  using find_row_None[of k rows] by (auto simp: id_of_def)

lemma games_again:
  assumes "id_of (wk, yr) (games db) = Some g"
  shows "games (with_game db now wk yr) = map (touch (wk, yr) (gupd now)) (games db)"
  using upsert_present[of game_cmp "(wk, yr)" "(games db, games_id_seq db)" "(now, now)" "gupd now"]
    id_of_present[OF assms]
  by (simp add: with_game_def game_upsert_def del: upsert_seq)

lemma untimed_eq:
  "untimed db = untimed db' \<longleftrightarrow>
     players db = players db'
     \<and> map (\<lambda>r. (row_id r, row_key r, snd (row_val r))) (games db)
         = map (\<lambda>r. (row_id r, row_key r, snd (row_val r))) (games db')
     \<and> map (\<lambda>r. (row_id r, row_key r, fst (row_val r))) (player_stats db)
         = map (\<lambda>r. (row_id r, row_key r, fst (row_val r))) (player_stats db')"
  by (simp add: untimed_def)

lemma same_rows_untimed: "same_rows db db' \<Longrightarrow> untimed db = untimed db'"
  by (simp add: same_rows_def untimed_def)

lemma has_team_cmp: "list_all has_team ps \<Longrightarrow> list_all (\<lambda>a. player_cmp (player_key a)) ps"
  by simp

lemma persist_twice_ok:
  assumes g: "game_ok wk yr" and ok: "list_all player_ok ps" and tm: "list_all has_team ps"
  shows "untimed (db_after (db_after db t1 wk yr ps) t2 wk yr ps) = untimed (db_after db t1 wk yr ps)"
proof -
  let ?g1 = "fst (game_upsert db t1 wk yr)"
  let ?D1 = "foldl (save_ok t1 ?g1) (with_game db t1 wk yr) ps"
  let ?D2 = "foldl (save_ok t2 ?g1) (with_game ?D1 t2 wk yr) ps"
  have gid: "id_of (wk, yr) (games ?D1) = Some ?g1"
    by (simp add: game_id_after)
  then have g2: "fst (game_upsert ?D1 t2 wk yr) = ?g1"
    by (rule game_id_known)
  have P1: "(players ?D1, players_id_seq ?D1) =
      upsert_all player_cmp player_key (pins t1) pupd ps (players db, players_id_seq db)"
    by (simp add: save_all_players)
  have "players ?D2 =
      fst (upsert_all player_cmp player_key (pins t2) pupd ps (players ?D1, players_id_seq ?D1))"
    by (simp add: save_all_players_fst)
  also have "\<dots> = players ?D1"
    unfolding P1 using upsert_all_twice[of pupd "pins t1" player_cmp player_key ps "pins t2"
        "(players db, players_id_seq db)", OF _ _ has_team_cmp[OF tm]]
    by (simp add: pupd_laws save_all_players_fst)
  finally have players: "players ?D2 = players ?D1" .
  let ?kf = "\<lambda>p. (pid_in (players ?D1) p, ?g1)"
  have S1: "(player_stats ?D1, player_stats_id_seq ?D1) =
      upsert_all stat_cmp ?kf (sins t1) (supd t1) ps (player_stats db, player_stats_id_seq db)"
    using save_all_stats[OF tm, of t1 ?g1 "with_game db t1 wk yr"] by simp
  have S2: "(player_stats ?D2, player_stats_id_seq ?D2) =
      upsert_all stat_cmp ?kf (sins t2) (supd t2) ps (player_stats ?D1, player_stats_id_seq ?D1)"
    using save_all_stats[OF tm, of t2 ?g1 "with_game ?D1 t2 wk yr"] unfolding players by simp
  have "map (\<lambda>r. (row_id r, row_key r, fst (row_val r)))
          (fst (upsert_all stat_cmp ?kf (sins t2) (supd t2) ps
                 (upsert_all stat_cmp ?kf (sins t1) (supd t1) ps
                    (player_stats db, player_stats_id_seq db))))
        = map (\<lambda>r. (row_id r, row_key r, fst (row_val r)))
            (fst (upsert_all stat_cmp ?kf (sins t1) (supd t1) ps
                    (player_stats db, player_stats_id_seq db)))"
    by (rule upsert_all_twice_obs) (simp_all add: supd_def sins_def list_all_iff)
  then have stats: "map (\<lambda>r. (row_id r, row_key r, fst (row_val r))) (player_stats ?D2)
        = map (\<lambda>r. (row_id r, row_key r, fst (row_val r))) (player_stats ?D1)"
    unfolding S1[symmetric] S2[symmetric] by simp
  have "games ?D2 = map (touch (wk, yr) (gupd t2)) (games ?D1)"
    using games_again[OF gid, of t2] by simp
  then have games: "map (\<lambda>r. (row_id r, row_key r, snd (row_val r))) (games ?D2)
        = map (\<lambda>r. (row_id r, row_key r, snd (row_val r))) (games ?D1)"
    by (simp add: comp_def gupd_def)
  show ?thesis
    unfolding db_after_ok[OF g ok] g2 untimed_eq using players stats games by blast
qed

lemma persist_twice:
  assumes "list_all has_team ps"
  shows "untimed (db_after (db_after db t1 wk yr ps) t2 wk yr ps)
           = untimed (db_after db t1 wk yr ps)"
proof (cases "game_ok wk yr")
  case False
  then show ?thesis
    by (simp add: db_after_not_game_ok)
next
  case g: True
  show ?thesis
  proof (cases "list_all player_ok ps")
    case True
    with g show ?thesis
      using assms by (rule persist_twice_ok)
  next
    case False
    from db_after_not_ok[OF g False] show ?thesis
      by (intro same_rows_untimed) simp
  qed
qed

text \<open>The games table takes no part in the players' keys: it is the same for every batch.\<close>

lemma games_twice:
  "map (\<lambda>r. (row_id r, row_key r, snd (row_val r)))
     (games (db_after (db_after db t1 wk yr ps) t2 wk yr ps))
   = map (\<lambda>r. (row_id r, row_key r, snd (row_val r))) (games (db_after db t1 wk yr ps))"
proof (cases "game_ok wk yr")
  case False
  then show ?thesis
    by (simp add: db_after_not_game_ok)
next
  case g: True
  show ?thesis
  proof (cases "list_all player_ok ps")
    case ok: True
    let ?g1 = "fst (game_upsert db t1 wk yr)"
    let ?D1 = "foldl (save_ok t1 ?g1) (with_game db t1 wk yr) ps"
    let ?D2 = "foldl (save_ok t2 ?g1) (with_game ?D1 t2 wk yr) ps"
    have gid: "id_of (wk, yr) (games ?D1) = Some ?g1"
      by (simp add: game_id_after)
    then have g2: "fst (game_upsert ?D1 t2 wk yr) = ?g1"
      by (rule game_id_known)
    have "games ?D2 = map (touch (wk, yr) (gupd t2)) (games ?D1)"
      using games_again[OF gid, of t2] by simp
    then have "map (\<lambda>r. (row_id r, row_key r, snd (row_val r))) (games ?D2)
        = map (\<lambda>r. (row_id r, row_key r, snd (row_val r))) (games ?D1)"
      by (simp add: comp_def gupd_def)
    then show ?thesis
      unfolding db_after_ok[OF g ok] g2 .
  next
    case False
    from db_after_not_ok[OF g False] show ?thesis
      by (simp add: same_rows_def)
  qed
qed

section \<open>What a run without error stores\<close>

lemma find_row_present:
  assumes "k \<in> set (map row_key rows)"
  obtains r where "find_row k rows = Some r" "r \<in> set rows" "row_key r = k"
  using assms find_row_None[of k rows] find_row_Some[of k rows]
  by (cases "find_row k rows") auto

lemma count_rows_distinct:
  "distinct (filter c (map row_key rows)) \<Longrightarrow> c k \<Longrightarrow> k \<in> set (map row_key rows)
   \<Longrightarrow> count_rows k rows = 1"
proof (induction rows)
  case Nil
  then show ?case by simp
next
  case (Cons r rows)
  show ?case
  proof (cases "row_key r = k")
    case True
    with Cons.prems have "k \<notin> set (filter c (map row_key rows))" by auto
    with Cons.prems(2) have "k \<notin> set (map row_key rows)" by simp
    then have "filter (\<lambda>r. row_key r = k) rows = []"
      by (auto simp: filter_empty_conv)
    with True show ?thesis
      by (simp add: count_rows_def)
  next
    case False
    with Cons.prems have "distinct (filter c (map row_key rows))" "k \<in> set (map row_key rows)"
      by (auto split: if_splits)
    with Cons.IH Cons.prems(2) False show ?thesis
      by (simp add: count_rows_def)
  qed
qed

text \<open>
  The players table after a run without error, for a record of the batch that has a
  team; the other records of the batch need not have one.
\<close>

lemma run_ok_player:
  assumes wf: "wf_database db" and g: "game_ok wk yr" and ok: "list_all player_ok ps"
    and p: "p \<in> set ps" and tm: "has_team p"
  shows "\<exists>a. last_with player_key (player_key p) ps = Some a
           \<and> stored_position (db_after db now wk yr ps) (player_key p)
               = Some (player_position a)"
    and "count_rows (player_key p) (players (db_after db now wk yr ps)) = 1"
proof -
  let ?g = "fst (game_upsert db now wk yr)"
  let ?db = "with_game db now wk yr"
  let ?D = "foldl (save_ok now ?g) ?db ps"
  let ?PF = "players ?D"
  have D: "db_after db now wk yr ps = ?D"
    by (rule db_after_ok[OF g ok])
  have wfD: "wf_database ?D"
    using wf by (intro wf_save_all wf_with_game)
  then have dk: "distinct (filter player_cmp (map row_key ?PF))"
    by (simp add: wf_database_def wf_table_def)
  have PF: "?PF = fst (upsert_all player_cmp player_key (pins now) pupd ps
                         (players db, players_id_seq db))"
    by (simp add: save_all_players_fst)
  have present: "player_key p \<in> set (map row_key ?PF)"
    unfolding PF keys_upsert_all using p by simp
  have "last_with player_key (player_key p) ps \<noteq> None"
    using p by (simp add: last_with_None)
  then obtain a where a: "last_with player_key (player_key p) ps = Some a"
    by auto
  from present obtain pr where pr: "find_row (player_key p) ?PF = Some pr"
      "pr \<in> set ?PF" "row_key pr = player_key p"
    by (rule find_row_present)
  have "player_cmp (row_key pr)"
    using tm by (simp add: pr(3))
  with pr(2) a have "row_val pr = pupd a (row_val pr)"
    unfolding PF pr(3)[symmetric]
    by (intro upsert_all_last[where ins = "pins now" and upd = pupd and c = player_cmp])
      (simp_all add: pupd_laws)
  then have pos: "fst (row_val pr) = player_position a"
    by (simp add: pupd_def prod_eq_iff)
  have "stored_position ?D (player_key p) = Some (player_position a)"
    by (simp add: stored_position_def pr(1) pos)
  then show "\<exists>a. last_with player_key (player_key p) ps = Some a
           \<and> stored_position (db_after db now wk yr ps) (player_key p)
               = Some (player_position a)"
    unfolding D using a by blast
  have "player_cmp (player_key p)"
    using tm by simp
  with dk show "count_rows (player_key p) (players (db_after db now wk yr ps)) = 1"
    unfolding D using present by (rule count_rows_distinct)
qed

lemma find_row_upsert_other:
  assumes "k' \<noteq> k"
  shows "find_row k' (fst (snd (upsert c k ins upd t))) = find_row k' (fst t)"
proof (cases rule: upsert_cases[of c k t ins upd])
  case insert
  have "find_row k' [(snd t, k, ins)] = None"
    using assms by (simp add: find_row_def)
  with insert show ?thesis
    by (simp add: find_row_append split: option.splits)
next
  case (conflict r)
  have "map_option (touch k upd) (find_row k' (fst t)) = find_row k' (fst t)"
  proof (cases "find_row k' (fst t)")
    case None
    then show ?thesis by simp
  next
    case (Some r')
    then have "row_key r' = k'"
      by (auto dest: find_row_Some)
    with assms have "touch k upd r' = r'"
      by (cases r') (simp add: touch_def)
    with Some show ?thesis by simp
  qed
  with conflict show ?thesis
    by (simp add: find_row_touch)
qed

lemma find_row_upsert_self:
  assumes "c k"
  obtains r where "find_row k (fst (snd (upsert c k ins upd t))) = Some r"
    and "row_id r = fst (upsert c k ins upd t)"
    and "row_val r = ins \<or> (\<exists>v0. row_val r = upd v0)"
proof -
  have "id_of k (fst (snd (upsert c k ins upd t))) = Some (fst (upsert c k ins upd t))"
    using assms by (rule id_of_upsert_self)
  then obtain r where r: "find_row k (fst (snd (upsert c k ins upd t))) = Some r"
    "row_id r = fst (upsert c k ins upd t)"
    by (auto simp: id_of_def)
  then have "r \<in> set (fst (snd (upsert c k ins upd t)))" "row_key r = k"
    by (auto dest: find_row_Some)
  then have "row_val r = ins \<or> (\<exists>v0. row_val r = upd v0)"
    using assms by (rule mem_upsert_self)
  with r show ?thesis
    by (rule that)
qed

text \<open>The id an upsert returns is not the id of a row with another key.\<close>

lemma upsert_id_other:
  assumes "wf_table c t" and "r \<in> set (fst t)" and "row_key r \<noteq> k"
  shows "fst (upsert c k ins upd t) \<noteq> row_id r"
proof (cases rule: upsert_cases[of c k t ins upd])
  case insert
  have "row_id r < snd t"
    using assms(1,2) by (auto simp: wf_table_def list_all_iff)
  with insert show ?thesis
    by simp
next
  case (conflict r0)
  then have r0: "r0 \<in> set (fst t)" "row_key r0 = k"
    by (auto dest: find_row_Some)
  with assms(3) have "r0 \<noteq> r"
    by auto
  moreover have "inj_on row_id (set (fst t))"
    using assms(1) by (simp add: wf_table_def distinct_map)
  ultimately have "row_id r0 \<noteq> row_id r"
    using r0(1) assms(2) by (auto dest: inj_onD)
  with conflict show ?thesis
    by simp
qed

text \<open>
  The rows a run without error leaves for a record that has a team: the player row of
  its key and, under that row's id and the game id, the statistics row with the points of
  the last record of the batch with the key.
\<close>

lemma save_all_points:
  assumes "wf_database db" and "p \<in> set ps" and "has_team p"
  shows "\<exists>a pr sr. last_with player_key (player_key p) ps = Some a
           \<and> find_row (player_key p) (players (foldl (save_ok now g) db ps)) = Some pr
           \<and> find_row (row_id pr, g) (player_stats (foldl (save_ok now g) db ps)) = Some sr
           \<and> fst (row_val sr) = player_points a"
  using assms(2)
proof (induction ps rule: rev_induct)
  case Nil
  then show ?case by simp
next
  case (snoc q qs)
  let ?D' = "foldl (save_ok now g) db qs"
  let ?D = "save_ok now g ?D' q"
  let ?pu = "upsert player_cmp (player_key q) (pins now q) (pupd q) (players ?D', players_id_seq ?D')"
  let ?su = "upsert stat_cmp (fst ?pu, g) (sins now q) (supd now q)
               (player_stats ?D', player_stats_id_seq ?D')"
  have wf': "wf_database ?D'"
    using assms(1) by (rule wf_save_all)
  have P: "players ?D = fst (snd ?pu)"
    using save_ok_players[of now g ?D' q, THEN arg_cong, of fst] by simp
  have S: "player_stats ?D = fst (snd ?su)"
    using save_ok_stats[of now g ?D' q, THEN arg_cong, of fst] by simp
  have D: "foldl (save_ok now g) db (qs @ [q]) = ?D"
    by simp
  show ?case
  proof (cases "player_key q = player_key p")
    case True
    then have "player_cmp (player_key q)"
      using assms(3) by simp
    then obtain pr where pr: "find_row (player_key q) (fst (snd ?pu)) = Some pr"
      "row_id pr = fst ?pu"
      by (rule find_row_upsert_self[where t = "(players ?D', players_id_seq ?D')"
            and ins = "pins now q" and upd = "pupd q"])
    have "stat_cmp (fst ?pu, g)"
      by simp
    then obtain sr where sr: "find_row (fst ?pu, g) (fst (snd ?su)) = Some sr"
      "row_val sr = sins now q \<or> (\<exists>v0. row_val sr = supd now q v0)"
      by (rule find_row_upsert_self[where t = "(player_stats ?D', player_stats_id_seq ?D')"
            and ins = "sins now q" and upd = "supd now q"])
    from sr(2) have "fst (row_val sr) = player_points q"
      by (auto simp: sins_def supd_def)
    moreover have "last_with player_key (player_key p) (qs @ [q]) = Some q"
      using True by simp
    moreover have "find_row (player_key p) (players ?D) = Some pr"
      using pr(1) by (simp add: P True)
    moreover have "find_row (row_id pr, g) (player_stats ?D) = Some sr"
      using sr(1) by (simp add: S pr(2))
    ultimately show ?thesis
      unfolding D by blast
  next
    case False
    with snoc.prems have "p \<in> set qs"
      by auto
    from snoc.IH[OF this] obtain a pr sr where
      a: "last_with player_key (player_key p) qs = Some a"
      and pr: "find_row (player_key p) (players ?D') = Some pr"
      and sr: "find_row (row_id pr, g) (player_stats ?D') = Some sr"
      and pts: "fst (row_val sr) = player_points a"
      by blast
    from pr have prm: "pr \<in> set (players ?D')" "row_key pr = player_key p"
      by (auto dest: find_row_Some)
    have "wf_table player_cmp (players ?D', players_id_seq ?D')"
      using wf' by (simp add: wf_database_def)
    then have "fst ?pu \<noteq> row_id pr"
      using prm False by (intro upsert_id_other) simp_all
    then have ne: "(row_id pr, g) \<noteq> (fst ?pu, g)"
      by simp
    have "player_key p \<noteq> player_key q"
      using False by simp
    then have "find_row (player_key p) (players ?D) = Some pr"
      unfolding P
      using pr find_row_upsert_other[where k' = "player_key p" and k = "player_key q"
          and c = player_cmp and ins = "pins now q" and upd = "pupd q"
          and t = "(players ?D', players_id_seq ?D')"]
      by simp
    moreover have "find_row (row_id pr, g) (player_stats ?D) = Some sr"
      unfolding S
      using sr find_row_upsert_other[OF ne, where c = stat_cmp and ins = "sins now q"
          and upd = "supd now q" and t = "(player_stats ?D', player_stats_id_seq ?D')"]
      by simp
    moreover have "last_with player_key (player_key p) (qs @ [q]) = Some a"
      using False a by simp
    ultimately show ?thesis
      unfolding D using pts by blast
  qed
qed

lemma run_ok_points:
  assumes wf: "wf_database db" and g: "game_ok wk yr" and ok: "list_all player_ok ps"
    and p: "p \<in> set ps" and tm: "has_team p"
  shows "\<exists>a. last_with player_key (player_key p) ps = Some a
           \<and> stored_points (db_after db now wk yr ps) (player_key p) wk yr
               = Some (player_points a)"
proof -
  let ?g = "fst (game_upsert db now wk yr)"
  let ?db = "with_game db now wk yr"
  let ?D = "foldl (save_ok now ?g) ?db ps"
  have D: "db_after db now wk yr ps = ?D"
    by (rule db_after_ok[OF g ok])
  have "wf_database ?db"
    using wf by (rule wf_with_game)
  from save_all_points[OF this p tm, of now ?g] obtain a pr sr where
    a: "last_with player_key (player_key p) ps = Some a"
    and pr: "find_row (player_key p) (players ?D) = Some pr"
    and sr: "find_row (row_id pr, ?g) (player_stats ?D) = Some sr"
    and pts: "fst (row_val sr) = player_points a"
    by blast
  have "id_of (wk, yr) (games ?db) = Some ?g"
    by (simp add: game_id_after)
  then obtain gr where gr: "find_row (wk, yr) (games ?db) = Some gr" "row_id gr = ?g"
    by (auto simp: id_of_def)
  have "stored_points ?D (player_key p) wk yr = Some (player_points a)"
    by (simp add: stored_points_def pr gr sr pts)
  then show ?thesis
    unfolding D using a by blast
qed

section \<open>Rows are kept; scores are stored as computed\<close>

lemma kept_refl [simp]: "kept rows rows"
  by (simp add: kept_def)

lemma kept_length: "kept rows rows' \<Longrightarrow> length rows \<le> length rows'"
  unfolding kept_def by (drule arg_cong[where f = length]) simp

lemma kept_trans:
  assumes "kept a b" and "kept b c"
  shows "kept a c"
proof -
  let ?f = "\<lambda>r. (row_id r, row_key r)"
  have "take (length a) (map ?f c) = take (length a) (take (length b) (map ?f c))"
    using kept_length[OF assms(1)] by (simp add: min_def)
  also have "\<dots> = take (length a) (map ?f b)"
    using assms(2) by (simp add: kept_def)
  also have "\<dots> = map ?f a"
    using assms(1) by (simp add: kept_def)
  finally show ?thesis
    by (simp add: kept_def)
qed

lemma kept_upsert: "kept (fst t) (fst (snd (upsert c k ins upd t)))"
proof (cases rule: upsert_cases[of c k t ins upd])
  case insert
  then show ?thesis
    by (simp add: kept_def)
next
  case (conflict r)
  then show ?thesis
    by (simp add: kept_def comp_def)
qed

lemma kept_upsert_all: "kept (fst t) (fst (upsert_all c kf ins upd ops t))"
proof (induction ops arbitrary: t)
  case Nil
  then show ?case by simp
next
  case (Cons a ops)
  show ?case
    unfolding upsert_all.simps
    by (rule kept_trans[OF kept_upsert Cons.IH])
qed

lemma kept_db_after: "kept (players db) (players (db_after db now wk yr ps))"
proof (cases "game_ok wk yr \<and> list_all player_ok ps")
  case True
  then show ?thesis
    using kept_upsert_all[of "(players db, players_id_seq db)" player_cmp player_key "pins now"
        pupd ps]
    by (simp add: db_after_ok save_all_players_fst)
next
  case False
  then have "players (db_after db now wk yr ps) = players db"
    using db_after_not_game_ok[of wk yr db now ps] db_after_not_ok[of wk yr ps db now]
    by (cases "game_ok wk yr") (auto simp: same_rows_def)
  then show ?thesis
    by simp
qed

lemma round_2_tenth: "round_2 (of_int k / 10) = of_int k / 10"
proof -
  have a: "(of_int k / 10 :: rat) * 100 = of_int (10 * k)"
    by simp
  have b: "- (of_int k / 10 :: rat) * 100 = of_int (- 10 * k)"
    by simp
  have c: "\<lfloor>of_int n + 1 / 2 :: rat\<rfloor> = n" for n :: int
    by (rule floor_unique) simp_all
  show ?thesis
    unfolding round_2_def a b c by simp
qed

lemma player_points_format_player:
  "player_points (format_player stat) = calculate_fantasy_points stat"
proof -
  obtain k :: int where "calculate_fantasy_points stat = of_int k / 10"
    unfolding calculate_fantasy_points_def Let_def using py_round1_tenth by blast
  then have "round_2 (calculate_fantasy_points stat) = calculate_fantasy_points stat"
    by (simp only: round_2_tenth)
  then show ?thesis
    by (simp add: player_points_def points_of_def format_player_def)
qed

lemma last_with_only:
  assumes "p \<in> set ps" and "\<And>q. q \<in> set ps \<Longrightarrow> kf q = kf p \<Longrightarrow> q = p"
  shows "last_with kf (kf p) ps = Some p"
proof -
  from assms(1) have "last_with kf (kf p) ps \<noteq> None"
    by (simp add: last_with_None)
  then obtain a where a: "last_with kf (kf p) ps = Some a"
    by auto
  then have "a \<in> set ps" "kf a = kf p"
    by (auto dest: last_with_Some)
  then have "a = p"
    by (rule assms(2))
  with a show ?thesis by simp
qed

section \<open>Evaluations\<close>

lemma floor_numeral_div:
  "\<lfloor>(numeral a / numeral b :: rat)\<rfloor> = numeral a div numeral b"
  using floor_divide_of_int_eq[of "numeral a" "numeral b", where ?'a = rat] by simp

lemmas db_eval = persist_week_def db_after_def insert_game_def int4_def upsert_def find_row_def
  process_players_def save_player_def save_player_try_def insert_player_def
  insert_player_stats_def varchar_def varchar_null_def decimal_5_2_def round_2_def points_of_def
  commit_def row_id_def row_key_def row_val_def empty_database_def Let_def floor_numeral_div
  player_cmp_def game_cmp_def stat_cmp_def
  player_A_def player_B_bad_def player_C_def player_A_1000_def player_A_long_def player_A_RB_def
  player_F_def player_F_TE_def

text \<open>
  C2. The claim fails on the code. A batch of three records whose second record has a
  four-letter team, too long for \<^verbatim>\<open>VARCHAR(3)\<close>: the failed statement aborts the
  transaction, the third record fails in turn, and the commit rolls everything back. No
  row is stored, the game row included, and the reported count is 1, not 2. Without the
  bad record the two valid records are stored.
\<close>

theorem one_bad_record_aborts_batch:
  "persist_week empty_database 5 1 2024 [player_A, player_B_bad, player_C]
     = Inr (1, \<lparr>players = [], games = [], player_stats = [],
                players_id_seq = 2, games_id_seq = 2, player_stats_id_seq = 2\<rparr>)
   \<and> persist_week empty_database 5 1 2024 [player_A, player_C]
     = Inr (2, \<lparr>players = [(1, (''A'', Some ''KC''), (Some ''QB'', 5)),
                           (2, (''C'', Some ''SF''), (Some ''WR'', 5))],
                games = [(1, (1, 2024), (5, 5))],
                player_stats = [(1, (1, 1), (18, 5)), (2, (2, 1), (26, 5))],
                players_id_seq = 3, games_id_seq = 2, player_stats_id_seq = 3\<rparr>)"
  by (simp add: db_eval)



section \<open>Claims about the persistence step\<close>





section \<open>Claims about the entry point\<close>

lemma resolve_week_fst:
  "fst (resolve_week w ev) = (if event_week ev = None \<or> event_week ev = Some 0 then [Http_get CurrentWeek] else [])"
  by (simp add: resolve_week_def Let_def)

text \<open>
  C6. When both credentials are set, the week is resolved and the provider answers the
  statistics request with no record, the handler returns status 200 with the message
  that no players were found, leaves the database as it was, and has made requests to the
  provider only: no secret was fetched and no connection opened.
\<close>

theorem empty_fetch_skips_persistence:
  assumes "environ w ''DB_SECRET_ARN'' = Some arn"
    and "environ w ''SPORTSDATA_API_KEY'' = Some key" and "key \<noteq> ''''"
    and "resolve_week w ev = (c1, Inr wk)"
    and "stats_json w (resolve_year ev) wk = Inr []"
  shows "lambda_handler w ev =
           Inr \<lparr>returned = \<lparr>statusCode = 200, body = Message ''No players found from API''\<rparr>,
                final_db = stored w,
                calls = c1 @ [Http_get (PlayerGameStatsByWeek (resolve_year ev) wk)]\<rparr>
         \<and> list_all (\<lambda>c. \<exists>e. c = Http_get e)
              (c1 @ [Http_get (PlayerGameStatsByWeek (resolve_year ev) wk)])"
proof -
  have "list_all (\<lambda>c. \<exists>e. c = Http_get e) c1"
    using resolve_week_fst[of w ev] assms(4) by (auto split: if_splits)
  then show ?thesis
    using assms by (simp add: lambda_handler_def handler_try_def all_players_of_def Let_def)
qed

text \<open>
  An instance: week 3 supplied, no record returned.
\<close>

theorem empty_fetch_skips_persistence_witness:
  "lambda_handler (example_world []) \<lparr>event_week = Some 3, event_year = None\<rparr> =
     Inr \<lparr>returned = \<lparr>statusCode = 200, body = Message ''No players found from API''\<rparr>,
          final_db = empty_database,
          calls = [Http_get (PlayerGameStatsByWeek 2024 3)]\<rparr>"
proof -
  let ?w = "example_world []"
  let ?ev = "\<lparr>event_week = Some 3, event_year = None\<rparr>"
  have a: "environ ?w ''DB_SECRET_ARN'' = Some ''arn''"
    and b: "environ ?w ''SPORTSDATA_API_KEY'' = Some ''key''" and c: "''key'' \<noteq> ''''"
    and d: "resolve_week ?w ?ev = ([], Inr 3)"
    by (simp_all add: example_world_def resolve_week_def)
  have y: "resolve_year ?ev = 2024"
    by (simp add: resolve_year_def)
  have e: "stats_json ?w (resolve_year ?ev) 3 = Inr []"
    by (simp add: example_world_def)
  have s: "stored ?w = empty_database"
    by (simp add: example_world_def)
  from empty_fetch_skips_persistence[OF a b c d e] show ?thesis
    unfolding y s by simp
qed

text \<open>
  C8, as stated, fails. The event supplies week 0; the handler asks the provider for the
  current week, gets 7, and fetches and reports week 7.
\<close>

theorem week_zero_counterexample:
  "lambda_handler (example_world [raw_A]) \<lparr>event_week = Some 0, event_year = None\<rparr> =
     Inr \<lparr>returned = \<lparr>statusCode = 200, body = Summary 1 7 2024 1 ''sportsdata.io''\<rparr>,
          final_db = \<lparr>players = [(1, (''A'', Some ''KC''), (Some ''QB'', 5))],
                      games = [(1, (7, 2024), (5, 5))],
                      player_stats = [(1, (1, 1), (18, 5))],
                      players_id_seq = 2, games_id_seq = 2, player_stats_id_seq = 2\<rparr>,
          calls = [Http_get CurrentWeek, Http_get (PlayerGameStatsByWeek 2024 7),
                   Get_secret_value ''arn'', Db_connect]\<rparr>"
  by (simp add: lambda_handler_def handler_try_def save_to_database_def resolve_week_def
      resolve_year_def all_players_of_def format_player_def get_text_def get_num_def
      calculate_fantasy_points_def py_round1_def example_world_def raw_A_def db_eval)

text \<open>
  C4. The claim fails on the code for the database secret reference: whatever the rest
  of the environment and the event, an environment without \<^verbatim>\<open>DB_SECRET_ARN\<close> makes the
  handler raise \<open>KeyError\<close>; no response is returned.
\<close>

theorem missing_secret_reference_raises:
  "lambda_handler (w\<lparr>environ := (environ w)(''DB_SECRET_ARN'' := None)\<rparr>) ev
     = Inl (KeyError ''DB_SECRET_ARN'')"
  by (simp add: lambda_handler_def)

lemma missing_api_key:
  "environ w ''DB_SECRET_ARN'' = Some arn \<Longrightarrow>
   environ w ''SPORTSDATA_API_KEY'' = None \<or> environ w ''SPORTSDATA_API_KEY'' = Some '''' \<Longrightarrow>
   lambda_handler w ev = Inr \<lparr>returned = \<lparr>statusCode = 400,
       body = Message ''SPORTSDATA_API_KEY environment variable required''\<rparr>,
     final_db = stored w, calls = []\<rparr>"
  by (auto simp add: lambda_handler_def Let_def)

text \<open>
  C8, amended. A week supplied by the event and different from 0 is used. When the event
  supplies no week, or week 0, the handler asks the provider for the current week and uses
  the field Week of the answer, or 1 when the answer has no such field. A missing year is
  2024. The summary, when one is returned, carries the resolved week and year, and the
  statistics were requested for them.
\<close>

theorem week_and_year_resolution:
  "(event_week ev = Some v \<and> v \<noteq> 0 \<longrightarrow> resolve_week w ev = ([], Inr v))
   \<and> (event_week ev = None \<or> event_week ev = Some 0 \<longrightarrow>
        resolve_week w ev =
          ([Http_get CurrentWeek],
           case current_week_json w of
             Inl e \<Rightarrow> Inl e
           | Inr js \<Rightarrow> Inr (case js ''Week'' of None \<Rightarrow> 1 | Some x \<Rightarrow> x)))
   \<and> (event_year ev = None \<longrightarrow> resolve_year ev = 2024)
   \<and> (event_year ev = Some y \<longrightarrow> resolve_year ev = y)
   \<and> (lambda_handler w ev = Inr out \<and> body (returned out) = Summary n wk yr tot src \<longrightarrow>
        snd (resolve_week w ev) = Inr wk \<and> yr = resolve_year ev
        \<and> Http_get (PlayerGameStatsByWeek yr wk) \<in> set (calls out))"
proof (intro conjI impI)
  assume "lambda_handler w ev = Inr out \<and> body (returned out) = Summary n wk yr tot src"
  then have a: "lambda_handler w ev = Inr out" and b: "body (returned out) = Summary n wk yr tot src"
    by simp_all
  from a b show "snd (resolve_week w ev) = Inr wk"
    by (auto simp: lambda_handler_def handler_try_def save_to_database_def Let_def
        split: option.splits if_splits sum.splits prod.splits)
  from a b show "yr = resolve_year ev"
    by (auto simp: lambda_handler_def handler_try_def save_to_database_def Let_def
        split: option.splits if_splits sum.splits prod.splits)
  from a b show "Http_get (PlayerGameStatsByWeek yr wk) \<in> set (calls out)"
    by (auto simp: lambda_handler_def handler_try_def save_to_database_def Let_def
        split: option.splits if_splits sum.splits prod.splits)
qed (auto simp: resolve_week_def resolve_year_def Let_def)

text \<open>
  Two instances: week 3 of 2023 supplied, and nothing supplied.
\<close>

theorem week_and_year_resolution_witness:
  "resolve_week (example_world [raw_A]) \<lparr>event_week = Some 3, event_year = Some 2023\<rparr> = ([], Inr 3)
   \<and> resolve_year \<lparr>event_week = Some 3, event_year = Some 2023\<rparr> = 2023
   \<and> resolve_week (example_world [raw_A]) \<lparr>event_week = None, event_year = None\<rparr>
       = ([Http_get CurrentWeek], Inr 7)
   \<and> resolve_year \<lparr>event_week = None, event_year = None\<rparr> = 2024
   \<and> Http_get (PlayerGameStatsByWeek 2024 7)
       \<in> set [Http_get CurrentWeek, Http_get (PlayerGameStatsByWeek 2024 7),
               Get_secret_value ''arn'', Db_connect]"
proof -
  let ?w = "example_world [raw_A]"
  let ?e1 = "\<lparr>event_week = Some 3, event_year = Some 2023\<rparr>"
  let ?e2 = "\<lparr>event_week = None, event_year = None\<rparr>"
  let ?out = "\<lparr>returned = \<lparr>statusCode = 200, body = Summary 1 7 2024 1 ''sportsdata.io''\<rparr>,
          final_db = \<lparr>players = [(1, (''A'', Some ''KC''), (Some ''QB'', 5))],
                      games = [(1, (7, 2024), (5, 5))],
                      player_stats = [(1, (1, 1), (18, 5))],
                      players_id_seq = 2, games_id_seq = 2, player_stats_id_seq = 2\<rparr>,
          calls = [Http_get CurrentWeek, Http_get (PlayerGameStatsByWeek 2024 7),
                   Get_secret_value ''arn'', Db_connect]\<rparr>"
  note t1 = week_and_year_resolution[of ?e1 3 ?w 2023]
  note t2 = week_and_year_resolution[of ?e2 _ ?w _ ?out 1 7 2024 1 "''sportsdata.io''"]
  have h: "lambda_handler ?w ?e2 = Inr ?out"
    by (simp add: lambda_handler_def handler_try_def save_to_database_def resolve_week_def
      resolve_year_def all_players_of_def format_player_def get_text_def get_num_def
      calculate_fantasy_points_def py_round1_def example_world_def raw_A_def db_eval)
  have c: "current_week_json ?w = Inr [''Week'' \<mapsto> 7]"
    by (simp add: example_world_def)
  from t1 have a1: "resolve_week ?w ?e1 = ([], Inr 3)" and a2: "resolve_year ?e1 = 2023"
    by simp_all
  from t2 have b1: "resolve_week ?w ?e2 = ([Http_get CurrentWeek], Inr 7)"
    and b2: "resolve_year ?e2 = 2024"
    by (simp_all add: c)
  from t2 h have b3: "Http_get (PlayerGameStatsByWeek 2024 7) \<in> set (calls ?out)"
    by simp
  from a1 a2 b1 b2 b3 show ?thesis
    by simp
qed

end
